theory Spec2Isabelle
  imports Complex_Main "HOL-Library.Sublist" "HOL-Library.Product_Lexorder"
begin

section \<open>Text analytics of the review corpus (app/analytics/router.py)\<close>

subsection \<open>Python strings and the Unicode character database\<close>

text \<open>
  A Python \<open>str\<close> is a sequence of Unicode code points. The regular expressions of the
  module are compiled with \<open>re.UNICODE\<close>, so their character classes read the Unicode
  character database of the interpreter, which is not part of the repository: it is a
  parameter of every function below. Its fields are the four per-character flags CPython
  keeps (\<open>str.isalpha\<close>: general category Lu, Ll, Lt, Lm or Lo; \<open>str.isdecimal\<close>: category
  Nd; \<open>str.isdigit\<close>; \<open>str.isnumeric\<close>) and \<open>str.lower\<close>, which works on whole strings.
\<close>

type_synonym codepoint = nat
type_synonym str = "codepoint list"

record ucd =
  isalpha :: "codepoint \<Rightarrow> bool"
  isdecimal :: "codepoint \<Rightarrow> bool"
  isdigit :: "codepoint \<Rightarrow> bool"
  isnumeric :: "codepoint \<Rightarrow> bool"
  lower :: "str \<Rightarrow> str"

text \<open>\<open>str.isalnum\<close>, as CPython defines it: any of the four flags.\<close>

definition isalnum :: "ucd \<Rightarrow> codepoint \<Rightarrow> bool" where
  "isalnum U c = (isalpha U c \<or> isdecimal U c \<or> isdigit U c \<or> isnumeric U c)"

text \<open>
  The classes of \<open>re\<close> on a \<open>str\<close> pattern: \<open>\w\<close> is an alphanumeric character
  (\<open>str.isalnum\<close>) or the underscore, \<open>\d\<close> is a decimal digit (category Nd), \<open>\W\<close> is the
  complement of \<open>\w\<close>.
\<close>

definition underscore :: codepoint where
  "underscore = 95"

definition re_w :: "ucd \<Rightarrow> codepoint \<Rightarrow> bool" where
  "re_w U c = (isalnum U c \<or> c = underscore)"

definition re_d :: "ucd \<Rightarrow> codepoint \<Rightarrow> bool" where
  "re_d U c = isdecimal U c"

text \<open>The class \<open>[^\W\d_]\<close>: a character that is none of \<open>\W\<close>, \<open>\d\<close> and \<open>_\<close>.\<close>

definition letter_class :: "ucd \<Rightarrow> codepoint \<Rightarrow> bool" where
  "letter_class U c = (\<not> (\<not> re_w U c \<or> re_d U c \<or> c = underscore))"

text \<open>
  The database restricted to Latin-1 (U+0000 to U+00FF), for evaluating the functions on
  concrete texts; code points above U+00FF are left without any flag and unchanged by
  \<open>lower\<close>. Letters: A-Z, a-z, U+00AA, U+00B5, U+00BA, U+00C0-U+00D6, U+00D8-U+00F6,
  U+00F8-U+00FF. Decimal digits: 0-9. Digits: also the superscripts U+00B2, U+00B3, U+00B9.
  Numeric: also the fractions U+00BC, U+00BD, U+00BE.
\<close>

definition latin1_alpha :: "codepoint \<Rightarrow> bool" where
  "latin1_alpha c = ((65 \<le> c \<and> c \<le> 90) \<or> (97 \<le> c \<and> c \<le> 122) \<or> c = 170 \<or> c = 181
     \<or> c = 186 \<or> (192 \<le> c \<and> c \<le> 214) \<or> (216 \<le> c \<and> c \<le> 246) \<or> (248 \<le> c \<and> c \<le> 255))"

definition latin1_decimal :: "codepoint \<Rightarrow> bool" where
  "latin1_decimal c = (48 \<le> c \<and> c \<le> 57)"

definition latin1_digit :: "codepoint \<Rightarrow> bool" where
  "latin1_digit c = (latin1_decimal c \<or> c = 178 \<or> c = 179 \<or> c = 185)"

definition latin1_numeric :: "codepoint \<Rightarrow> bool" where
  "latin1_numeric c = (latin1_digit c \<or> c = 188 \<or> c = 189 \<or> c = 190)"

definition latin1_tolower :: "codepoint \<Rightarrow> codepoint" where
  "latin1_tolower c =
     (if (65 \<le> c \<and> c \<le> 90) \<or> (192 \<le> c \<and> c \<le> 214) \<or> (216 \<le> c \<and> c \<le> 222) then c + 32 else c)"

definition latin1 :: ucd where
  "latin1 = \<lparr>isalpha = latin1_alpha, isdecimal = latin1_decimal, isdigit = latin1_digit,
     isnumeric = latin1_numeric, lower = map latin1_tolower\<rparr>"

text \<open>A string literal of the source, as code points.\<close>

definition py :: "string \<Rightarrow> str" where
  "py s = map of_char s"

subsection \<open>count_letters\<close>

text \<open>
  \<open>re.findall\<close> with a one-character class returns the matching characters in order;
  \<open>not text\<close> holds for \<open>None\<close> and for the empty string.
\<close>

definition findall_letter :: "ucd \<Rightarrow> str \<Rightarrow> codepoint list" where
  "findall_letter U text = filter (letter_class U) text"

definition count_letters :: "ucd \<Rightarrow> str option \<Rightarrow> nat" where
  "count_letters U text =
     (case text of
        None \<Rightarrow> 0
      | Some t \<Rightarrow> if t = [] then 0 else length (findall_letter U t))"

subsection \<open>Tokenizing and stopwords\<close>

text \<open>
  \<open>WORD_PATTERN.findall\<close> for \<open>\b\w+\b\<close>: the scan skips characters that are not \<open>\w\<close>; at
  a \<open>\w\<close> character after one (or at the start) there is a word boundary, \<open>\w+\<close> takes the
  longest run, at whose end the second boundary holds, and the scan goes on behind it.
\<close>

function WORD_PATTERN_findall :: "ucd \<Rightarrow> str \<Rightarrow> str list" where
  "WORD_PATTERN_findall U [] = []"
| "WORD_PATTERN_findall U (c # cs) =
     (if re_w U c
      then takeWhile (re_w U) (c # cs) # WORD_PATTERN_findall U (dropWhile (re_w U) cs)
      else WORD_PATTERN_findall U cs)"
  by pat_completeness auto
termination
  by (relation "measure (\<lambda>(U, s). length s)") (auto simp: length_dropWhile_le less_Suc_eq_le)

definition STOPWORDS :: "str set" where
  "STOPWORDS = set (map py
     [''the'', ''and'', ''or'', ''is'', ''are'', ''am'', ''was'', ''were'',
      ''be'', ''been'', ''being'',
      ''of'', ''to'', ''in'', ''on'', ''for'', ''with'', ''at'', ''by'', ''from'',
      ''this'', ''that'', ''these'', ''those'',
      ''a'', ''an'', ''it'', ''its'', ''as'', ''so'', ''if'', ''but'',
      ''very'', ''really'', ''just'', ''also'', ''too'',
      ''i'', ''we'', ''you'', ''he'', ''she'', ''they'', ''it'',
      ''me'', ''us'', ''him'', ''her'', ''them'',
      ''my'', ''our'', ''your'', ''his'', ''their'',
      ''hotel'', ''room'', ''rooms'', ''place'', ''stay'', ''stayed'',
      ''location'', ''area'', ''night'', ''nights'', ''day'', ''days'',
      ''dan'', ''yang'', ''di'', ''ke'', ''dari'', ''itu'', ''ini'', ''untuk'', ''dengan'',
      ''kami'', ''kita'', ''saya'', ''aku'', ''dia'', ''mereka'',
      ''pada'', ''ada'', ''tidak'', ''bukan''])"

text \<open>\<open>re.search\<close> of the letter class in a token: some character of the token matches.\<close>

definition search_letter :: "ucd \<Rightarrow> str \<Rightarrow> bool" where
  "search_letter U t = list_ex (letter_class U) t"

text \<open>The loop over the tokens, with its three \<open>continue\<close> tests in the order of the source.\<close>

fun clean_tokens :: "ucd \<Rightarrow> str list \<Rightarrow> str list" where
  "clean_tokens U [] = []"
| "clean_tokens U (t # ts) =
     (if \<not> search_letter U t then clean_tokens U ts
      else if length t \<le> 2 then clean_tokens U ts
      else if t \<in> STOPWORDS then clean_tokens U ts
      else t # clean_tokens U ts)"

definition extract_clean_words :: "ucd \<Rightarrow> str option \<Rightarrow> str list" where
  "extract_clean_words U text =
     (case text of
        None \<Rightarrow> []
      | Some t \<Rightarrow> if t = [] then [] else clean_tokens U (WORD_PATTERN_findall U (lower U t)))"

subsection \<open>Lexicon\<close>

definition POSITIVE_WORDS :: "str set" where
  "POSITIVE_WORDS = set (map py
     [''excellent'', ''great'', ''good'', ''amazing'', ''clean'', ''friendly'',
      ''comfortable'', ''wonderful'', ''perfect'', ''nice'', ''helpful'',
      ''recommend'', ''love'', ''best'', ''enjoy'', ''spacious'', ''lovely'',
      ''fantastic'', ''awesome''])"

definition NEGATIVE_WORDS :: "str set" where
  "NEGATIVE_WORDS = set (map py
     [''bad'', ''terrible'', ''awful'', ''dirty'', ''rude'', ''worst'', ''broken'',
      ''poor'', ''noisy'', ''disappointed'', ''uncomfortable'', ''hate'',
      ''slow'', ''problem'', ''issue'', ''smell'', ''smelly'', ''horrible'',
      ''disgusting''])"

subsection \<open>Reviews (app/models.py) and the queries\<close>

text \<open>
  A \<open>datetime\<close> with its seven fields; Python compares two of them field by field, from
  the year down. A \<open>date\<close> is the first three.
\<close>

record datetime =
  year :: int
  month :: int
  day :: int
  hour :: int
  minute :: int
  second :: int
  microsecond :: int

type_synonym date = "int \<times> int \<times> int"

definition dt_key :: "datetime \<Rightarrow> int \<times> int \<times> int \<times> int \<times> int \<times> int \<times> int" where
  "dt_key d = (year d, month d, day d, hour d, minute d, second d, microsecond d)"

text \<open>\<open>datetime.combine(d, datetime.min.time())\<close> and \<open>datetime.combine(d, datetime.max.time())\<close>.\<close>

definition combine_min :: "date \<Rightarrow> datetime" where
  "combine_min d = (case d of (y, m, dd) \<Rightarrow>
     \<lparr>year = y, month = m, day = dd, hour = 0, minute = 0, second = 0, microsecond = 0\<rparr>)"

definition combine_max :: "date \<Rightarrow> datetime" where
  "combine_max d = (case d of (y, m, dd) \<Rightarrow>
     \<lparr>year = y, month = m, day = dd, hour = 23, minute = 59, second = 59, microsecond = 999999\<rparr>)"

text \<open>
  The columns of \<open>Review\<close> that the analytics read. All but the primary key are nullable.
\<close>

record review =
  review_id :: int
  rating :: "int option"
  review_text :: "str option"
  review_date :: "datetime option"
  polarity :: "real option"

text \<open>
  The date range of a query: a bound is applied when it is given, and a comparison with a
  NULL \<open>review_date\<close> is not true in SQL, so the row is left out.
\<close>

definition date_ge :: "datetime option \<Rightarrow> review \<Rightarrow> bool" where
  "date_ge start_date r =
     (case start_date of
        None \<Rightarrow> True
      | Some s \<Rightarrow> (case review_date r of None \<Rightarrow> False | Some d \<Rightarrow> dt_key s \<le> dt_key d))"

definition date_le :: "datetime option \<Rightarrow> review \<Rightarrow> bool" where
  "date_le end_date r =
     (case end_date of
        None \<Rightarrow> True
      | Some e \<Rightarrow> (case review_date r of None \<Rightarrow> False | Some d \<Rightarrow> dt_key d \<le> dt_key e))"

text \<open>The rows \<open>q.all()\<close> returns in \<open>word_frequency\<close>, from the rows of the table.\<close>

definition word_frequency_query ::
  "review list \<Rightarrow> datetime option \<Rightarrow> datetime option \<Rightarrow> review list" where
  "word_frequency_query db start_date end_date =
     filter (\<lambda>r. review_text r \<noteq> None \<and> date_ge start_date r \<and> date_le end_date r) db"

subsection \<open>word_frequency\<close>

text \<open>
  A \<open>Counter\<close> is a dictionary, which keeps its keys in the order they were first
  inserted: an association list in that order. \<open>update([w])\<close> adds one to the count of
  \<open>w\<close>, a new key going to the end.
\<close>

type_synonym counter = "(str \<times> nat) list"

fun counter_update :: "counter \<Rightarrow> str \<Rightarrow> counter" where
  "counter_update [] w = [(w, 1)]"
| "counter_update ((k, n) # kvs) w =
     (if k = w then (k, n + 1) # kvs else (k, n) # counter_update kvs w)"

text \<open>
  \<open>most_common(n)\<close> is \<open>heapq.nlargest(n, items, key=count)\<close>, documented as
  \<open>sorted(items, key=count, reverse=True)[:n]\<close>; the sort is stable, also when reversed.
\<close>

definition most_common :: "counter \<Rightarrow> nat \<Rightarrow> (str \<times> nat) list" where
  "most_common c n = take n (sort_key (\<lambda>kv. - int (snd kv)) c)"

record scan_state =
  pos_counter :: counter
  neg_counter :: counter
  pos_hits :: "int set"
  neg_hits :: "int set"

text \<open>The inner loop over the words of one review: the two counters and the two flags.\<close>

fun scan_words :: "str list \<Rightarrow> counter \<times> counter \<times> bool \<times> bool \<Rightarrow> counter \<times> counter \<times> bool \<times> bool" where
  "scan_words [] acc = acc"
| "scan_words (w # ws) (pc, nc, found_pos, found_neg) =
     (let (pc1, found_pos1) = (if w \<in> POSITIVE_WORDS then (counter_update pc w, True) else (pc, found_pos));
          (nc1, found_neg1) = (if w \<in> NEGATIVE_WORDS then (counter_update nc w, True) else (nc, found_neg))
      in scan_words ws (pc1, nc1, found_pos1, found_neg1))"

text \<open>The body of the loop over the reviews.\<close>

definition scan_review :: "ucd \<Rightarrow> review \<Rightarrow> scan_state \<Rightarrow> scan_state" where
  "scan_review U r st =
     (let words = extract_clean_words U (Some (case review_text r of None \<Rightarrow> [] | Some t \<Rightarrow> t))
      in if words = [] then st
         else (case scan_words words (pos_counter st, neg_counter st, False, False) of
                 (pc, nc, found_pos, found_neg) \<Rightarrow>
                   \<lparr>pos_counter = pc, neg_counter = nc,
                    pos_hits = (if found_pos then insert (review_id r) (pos_hits st) else pos_hits st),
                    neg_hits = (if found_neg then insert (review_id r) (neg_hits st) else neg_hits st)\<rparr>))"

definition scan_init :: scan_state where
  "scan_init = \<lparr>pos_counter = [], neg_counter = [], pos_hits = {}, neg_hits = {}\<rparr>"

record word_frequency_result =
  total_reviews_scanned :: nat
  reviews_with_positive_words :: nat
  reviews_with_negative_words :: nat
  top_k :: nat
  positive_top_words :: "(str \<times> nat) list"
  negative_top_words :: "(str \<times> nat) list"

text \<open>The endpoint after its query: \<open>reviews\<close> is what \<open>q.all()\<close> returned.\<close>

definition word_frequency_of :: "ucd \<Rightarrow> review list \<Rightarrow> nat \<Rightarrow> word_frequency_result" where
  "word_frequency_of U reviews k =
     (let st = fold (scan_review U) reviews scan_init
      in \<lparr>total_reviews_scanned = length reviews,
          reviews_with_positive_words = card (pos_hits st),
          reviews_with_negative_words = card (neg_hits st),
          top_k = k,
          positive_top_words = most_common (pos_counter st) k,
          negative_top_words = most_common (neg_counter st) k\<rparr>)"

definition word_frequency ::
  "ucd \<Rightarrow> review list \<Rightarrow> datetime option \<Rightarrow> datetime option \<Rightarrow> nat \<Rightarrow> word_frequency_result" where
  "word_frequency U db start_date end_date k =
     word_frequency_of U (word_frequency_query db start_date end_date) k"

subsection \<open>sentiment_trend\<close>

text \<open>
  The proleptic Gregorian ordinal of a date (\<open>date.toordinal\<close>), as the \<open>datetime\<close> module
  computes it; day 1 is Monday, 1 January of year 1.
\<close>

definition is_leap :: "int \<Rightarrow> bool" where
  "is_leap y = (y mod 4 = 0 \<and> (y mod 100 \<noteq> 0 \<or> y mod 400 = 0))"

definition days_before_year :: "int \<Rightarrow> int" where
  "days_before_year y = (y - 1) * 365 + (y - 1) div 4 - (y - 1) div 100 + (y - 1) div 400"

definition days_in_month :: "int \<Rightarrow> int \<Rightarrow> int" where
  "days_in_month y m =
     (if m = 2 then (if is_leap y then 29 else 28)
      else if m = 4 \<or> m = 6 \<or> m = 9 \<or> m = 11 then 30 else 31)"

definition days_before_month :: "int \<Rightarrow> int \<Rightarrow> int" where
  "days_before_month y m = sum_list (map (days_in_month y) [1..m - 1])"

definition ymd2ord :: "int \<Rightarrow> int \<Rightarrow> int \<Rightarrow> int" where
  "ymd2ord y m d = days_before_year y + days_before_month y m + d"

text \<open>The dates a \<open>datetime\<close> object can hold.\<close>

definition valid_datetime :: "datetime \<Rightarrow> bool" where
  "valid_datetime t = (1 \<le> year t \<and> 1 \<le> month t \<and> month t \<le> 12
     \<and> 1 \<le> day t \<and> day t \<le> days_in_month (year t) (month t))"

text \<open>
  The group keys: \<open>dt.date\<close> gives a calendar date; \<open>dt.to_period("W")\<close> gives the week
  from Monday to Sunday that holds the day, numbered here from the week of day 1;
  \<open>dt.to_period("M")\<close> gives the year and month.
\<close>

datatype bucket = Day int int int | Week int | Month int int

definition bucket_of :: "str \<Rightarrow> datetime \<Rightarrow> bucket" where
  "bucket_of interval t =
     (if interval = py ''daily'' then Day (year t) (month t) (day t)
      else if interval = py ''weekly'' then Week ((ymd2ord (year t) (month t) (day t) - 1) div 7)
      else Month (year t) (month t))"

text \<open>
  The order of the keys: dates compare by year, month and day; periods of one frequency
  compare by their position on the time line.
\<close>

fun bucket_order :: "bucket \<Rightarrow> int \<times> int \<times> int" where
  "bucket_order (Day y m d) = (y, m, d)"
| "bucket_order (Week w) = (w, 0, 0)"
| "bucket_order (Month y m) = (y, m, 0)"

text \<open>The ordinal of the first day of a bucket.\<close>

fun bucket_start :: "bucket \<Rightarrow> int" where
  "bucket_start (Day y m d) = ymd2ord y m d"
| "bucket_start (Week w) = 7 * w + 1"
| "bucket_start (Month y m) = ymd2ord y m 1"

text \<open>
  \<open>df.groupby(key).mean()\<close>: the rows are collected per key, each group keeping its rows
  in the order of the frame; the result has one row per group, the groups sorted by key,
  with the arithmetic mean of the group's values. The mean is taken over the reals: the
  rounding of the floating-point sum is not modelled.
\<close>

fun group_add :: "(bucket \<times> real list) list \<Rightarrow> bucket \<times> real \<Rightarrow> (bucket \<times> real list) list" where
  "group_add [] (k, v) = [(k, [v])]"
| "group_add ((k', vs) # gs) (k, v) =
     (if k' = k then (k', vs @ [v]) # gs else (k', vs) # group_add gs (k, v))"

definition mean :: "real list \<Rightarrow> real" where
  "mean vs = sum_list vs / real (length vs)"

definition groupby_mean :: "(bucket \<times> real) list \<Rightarrow> (bucket \<times> real) list" where
  "groupby_mean rows =
     map (\<lambda>g. (fst g, mean (snd g))) (sort_key (\<lambda>g. bucket_order (fst g)) (foldl group_add [] rows))"

text \<open>The rows \<open>q.all()\<close> returns in \<open>sentiment_trend\<close>.\<close>

definition sentiment_trend_query :: "review list \<Rightarrow> date option \<Rightarrow> date option \<Rightarrow> review list" where
  "sentiment_trend_query db start_date end_date =
     filter (\<lambda>r. polarity r \<noteq> None \<and> review_date r \<noteq> None
                \<and> date_ge (map_option combine_min start_date) r
                \<and> date_le (map_option combine_max end_date) r) db"

text \<open>
  The endpoint returns the error dictionary, or the picture of the grouped frame; the
  picture is represented by the series it plots.
\<close>

datatype trend_response = TrendError string | TrendPlot "(bucket \<times> real) list"

definition trend_rows :: "str \<Rightarrow> review list \<Rightarrow> (bucket \<times> real) list" where
  "trend_rows interval reviews =
     map (\<lambda>r. (bucket_of interval (the (review_date r)), the (polarity r))) reviews"

definition sentiment_trend :: "review list \<Rightarrow> date option \<Rightarrow> date option \<Rightarrow> str \<Rightarrow> trend_response" where
  "sentiment_trend db start_date end_date interval =
     (let reviews = sentiment_trend_query db start_date end_date
      in if reviews = [] then TrendError ''Tidak ada data pada rentang ini.''
         else TrendPlot (groupby_mean (trend_rows interval reviews)))"

subsection \<open>rating_length_correlation\<close>

text \<open>
  \<open>scipy.stats.pearsonr\<close> on two integer arrays, as SciPy documents and implements it:
  fewer than two points raise \<open>ValueError\<close>; a constant array gives a warning and the
  result \<open>(nan, nan)\<close>; two points give the product of the signs and the p-value 1;
  otherwise the coefficient is the normalised dot product of the centred arrays, cut to
  \<open>[-1, 1]\<close>, and the p-value comes from the beta distribution, through the regularised
  incomplete beta integral \<open>btdtr\<close> of \<open>scipy.special\<close>, a parameter here. The arithmetic
  is over the reals.
\<close>

datatype py_error = ValueError

datatype pyfloat = NaN | Float real

definition all_equal :: "int list \<Rightarrow> bool" where
  "all_equal xs = list_all (\<lambda>x. x = hd xs) xs"

definition norm2 :: "real list \<Rightarrow> real" where
  "norm2 xs = sqrt (sum_list (map (\<lambda>x. x * x) xs))"

definition pearsonr ::
  "(real \<Rightarrow> real \<Rightarrow> real \<Rightarrow> real) \<Rightarrow> int list \<Rightarrow> int list \<Rightarrow> py_error + pyfloat \<times> pyfloat" where
  "pearsonr btdtr x y =
     (let n = length x in
      if n \<noteq> length y then Inl ValueError
      else if n < 2 then Inl ValueError
      else if all_equal x \<or> all_equal y then Inr (NaN, NaN)
      else if n = 2 then Inr (Float (real_of_int (sgn (x ! 1 - x ! 0) * sgn (y ! 1 - y ! 0))), Float 1)
      else
        (let xm = map (\<lambda>v. real_of_int v - mean (map real_of_int x)) x;
             ym = map (\<lambda>v. real_of_int v - mean (map real_of_int y)) y;
             r0 = sum_list (map (\<lambda>(a, b). (a / norm2 xm) * (b / norm2 ym)) (zip xm ym));
             r = max (min r0 1) (- 1);
             ab = real n / 2 - 1
         in Inr (Float r, Float (2 * btdtr ab ab (0.5 * (1 - \<bar>r\<bar>))))))"

text \<open>The rows \<open>q.all()\<close> returns in \<open>rating_length_correlation\<close>.\<close>

definition correlation_query :: "review list \<Rightarrow> date option \<Rightarrow> date option \<Rightarrow> review list" where
  "correlation_query db start_date end_date =
     filter (\<lambda>r. rating r \<noteq> None \<and> review_text r \<noteq> None \<and> review_text r \<noteq> Some []
                \<and> date_ge (map_option combine_min start_date) r
                \<and> date_le (map_option combine_max end_date) r) db"

definition records_of :: "ucd \<Rightarrow> review list \<Rightarrow> (int \<times> nat) list" where
  "records_of U reviews = map (\<lambda>r. (the (rating r), count_letters U (review_text r))) reviews"

text \<open>The dictionary filled by the loop over \<open>range(1, 6)\<close>, in the order of its keys.\<close>

definition subset_of :: "(int \<times> nat) list \<Rightarrow> int \<Rightarrow> nat list" where
  "subset_of records k = map snd (filter (\<lambda>rl. fst rl = k) records)"

definition avg_length_per_rating :: "(int \<times> nat) list \<Rightarrow> (int \<times> real option) list" where
  "avg_length_per_rating records =
     map (\<lambda>k. (k, if subset_of records k = [] then None
                   else Some (mean (map real (subset_of records k))))) [1..5]"

datatype correlation_response =
  CorrelationError string
| CorrelationStats "(int \<times> real option) list" pyfloat pyfloat

definition rating_length_correlation ::
  "ucd \<Rightarrow> (real \<Rightarrow> real \<Rightarrow> real \<Rightarrow> real) \<Rightarrow> review list \<Rightarrow> date option \<Rightarrow> date option
     \<Rightarrow> py_error + correlation_response" where
  "rating_length_correlation U btdtr db start_date end_date =
     (let reviews = correlation_query db start_date end_date
      in if reviews = [] then Inr (CorrelationError ''Tidak ada review dalam rentang ini.'')
         else
           (let records = records_of U reviews;
                ratings = map fst records;
                lengths = map (\<lambda>rl. int (snd rl)) records
            in case pearsonr btdtr ratings lengths of
                 Inl e \<Rightarrow> Inl e
               | Inr (pearson_r, p_value) \<Rightarrow>
                   Inr (CorrelationStats (avg_length_per_rating records) pearson_r p_value)))"

section \<open>Notions used to state the properties\<close>

text \<open>The count a \<open>Counter\<close> holds for a word: \<open>c[w]\<close>, which is 0 for a missing key.\<close>

definition counter_get :: "counter \<Rightarrow> str \<Rightarrow> nat" where
  "counter_get c w = (case map_of c w of None \<Rightarrow> 0 | Some n \<Rightarrow> n)"

text \<open>The position at which a value is first met in a scan.\<close>

definition first_index :: "'a list \<Rightarrow> 'a \<Rightarrow> nat" where
  "first_index xs a = length (takeWhile (\<lambda>x. x \<noteq> a) xs)"

text \<open>The distinct values of a scan, in the order in which they are first met.\<close>

definition first_seen :: "'a list \<Rightarrow> 'a list" where
  "first_seen xs = rev (remdups (rev xs))"

text \<open>The cleaned words of a review, as the loop of \<open>word_frequency\<close> obtains them.\<close>

definition review_words :: "ucd \<Rightarrow> review \<Rightarrow> str list" where
  "review_words U r = extract_clean_words U (Some (case review_text r of None \<Rightarrow> [] | Some t \<Rightarrow> t))"

text \<open>All occurrences of the words of a lexicon in the reviews, in the order of the scan.\<close>

definition lexicon_hits :: "ucd \<Rightarrow> str set \<Rightarrow> review list \<Rightarrow> str list" where
  "lexicon_hits U lexicon reviews =
     concat (map (\<lambda>r. filter (\<lambda>w. w \<in> lexicon) (review_words U r)) reviews)"

text \<open>
  A list of (word, count) pairs is the top \<open>k\<close> of a scan: it has \<open>k\<close> entries, or all the
  distinct words when there are fewer; each entry is a word of the scan with its number
  of occurrences; the entries go by falling count, and among equal counts by the place
  where the word was first met; no word left out has more occurrences than an entry.
\<close>

definition top_ranked :: "str list \<Rightarrow> nat \<Rightarrow> (str \<times> nat) list \<Rightarrow> bool" where
  "top_ranked hits k tops =
     (length tops = min k (length (first_seen hits))
      \<and> list_all (\<lambda>p. fst p \<in> set hits \<and> snd p = count_list hits (fst p)) tops
      \<and> sorted_wrt (\<lambda>a b. snd b < snd a
            \<or> (snd a = snd b \<and> first_index hits (fst a) < first_index hits (fst b))) tops
      \<and> list_all (\<lambda>w. w \<in> set (map fst tops) \<or> list_all (\<lambda>p. count_list hits w \<le> snd p) tops) hits)"

text \<open>The three tests a token passes to stay in the cleaned sequence.\<close>

definition keeps :: "ucd \<Rightarrow> str \<Rightarrow> bool" where
  "keeps U t = (search_letter U t \<and> 2 < length t \<and> t \<notin> STOPWORDS)"

text \<open>\<open>sep.join(ws)\<close> for a separator of one character.\<close>

fun str_join :: "codepoint \<Rightarrow> str list \<Rightarrow> str" where
  "str_join sep [] = []"
| "str_join sep [w] = w"
| "str_join sep (w # v # ws) = w @ sep # str_join sep (v # ws)"

text \<open>
  What the idempotence of the tokenizer needs of \<open>str.lower\<close>: every character of a
  lowered string is left alone by \<open>lower\<close>, and a string of such characters is left alone
  as a whole.
\<close>

definition lower_settled :: "ucd \<Rightarrow> bool" where
  "lower_settled U =
     ((\<forall>s. list_all (\<lambda>c. lower U [c] = [c]) (lower U s))
      \<and> (\<forall>s. list_all (\<lambda>c. lower U [c] = [c]) s \<longrightarrow> lower U s = s))"

text \<open>A calendar date: a month from 1 to 12 and a day of that month.\<close>

definition valid_date :: "int \<Rightarrow> int \<Rightarrow> int \<Rightarrow> bool" where
  "valid_date y m d = (1 \<le> m \<and> m \<le> 12 \<and> 1 \<le> d \<and> d \<le> days_in_month y m)"

text \<open>The values of the rows of a frame that carry a given key, in the order of the frame.\<close>

definition bucket_values :: "(bucket \<times> real) list \<Rightarrow> bucket \<Rightarrow> real list" where
  "bucket_values rows k = map snd (filter (\<lambda>kv. fst kv = k) rows)"

text \<open>The rows collected for a key in a list of groups.\<close>

definition group_get :: "(bucket \<times> real list) list \<Rightarrow> bucket \<Rightarrow> real list" where
  "group_get gs k = (case map_of gs k of None \<Rightarrow> [] | Some vs \<Rightarrow> vs)"

text \<open>\<open>date.toordinal()\<close> and \<open>date.weekday()\<close> (Monday is 0) of a timestamp.\<close>

definition toordinal :: "datetime \<Rightarrow> int" where
  "toordinal t = ymd2ord (year t) (month t) (day t)"

definition weekday :: "datetime \<Rightarrow> int" where
  "weekday t = (toordinal t + 6) mod 7"

text \<open>
  A bucket holds a timestamp, stated from the calendar and not from the code: a day
  bucket is the calendar date of the timestamp, and stands in a daily series; a week
  bucket runs from the Monday on or before the day of the timestamp to the Sunday after
  it, week \<open>w\<close> being the days \<open>7 w + 1\<close> to \<open>7 w + 7\<close>, and stands in a weekly series;
  a month bucket is the year and month of the timestamp, and stands in a series of any
  other interval.
\<close>

definition bucket_holds :: "str \<Rightarrow> bucket \<Rightarrow> datetime \<Rightarrow> bool" where
  "bucket_holds interval k t =
     (case k of
        Day y m d \<Rightarrow> interval = py ''daily'' \<and> y = year t \<and> m = month t \<and> d = day t
      | Week w \<Rightarrow> interval \<noteq> py ''daily'' \<and> interval = py ''weekly''
          \<and> 7 * w + 1 = toordinal t - weekday t
      | Month y m \<Rightarrow> interval \<noteq> py ''daily'' \<and> interval \<noteq> py ''weekly''
          \<and> y = year t \<and> m = month t)"

text \<open>The number of days of a bucket.\<close>

fun bucket_length :: "bucket \<Rightarrow> int" where
  "bucket_length (Day y m d) = 1"
| "bucket_length (Week w) = 7"
| "bucket_length (Month y m) = days_in_month y m"

text \<open>The polarities of the reviews whose timestamps a bucket holds, in the order of the reviews.\<close>

definition held_polarities :: "str \<Rightarrow> review list \<Rightarrow> bucket \<Rightarrow> real list" where
  "held_polarities interval reviews k =
     map (\<lambda>r. the (polarity r))
       (filter (\<lambda>r. bucket_holds interval k (the (review_date r))) reviews)"

text \<open>A review whose rating is on the scale from 1 to 5.\<close>

definition in_scale :: "review \<Rightarrow> bool" where
  "in_scale r = (case rating r of None \<Rightarrow> False | Some k \<Rightarrow> 1 \<le> k \<and> k \<le> 5)"

text \<open>The letter counts of the reviews that have a given rating.\<close>

definition lengths_with_rating :: "ucd \<Rightarrow> review list \<Rightarrow> int \<Rightarrow> nat list" where
  "lengths_with_rating U reviews k =
     map (\<lambda>r. count_letters U (review_text r)) (filter (\<lambda>r. rating r = Some k) reviews)"

text \<open>The arithmetic mean of some letter counts, or the absence marker when there are none.\<close>

definition mean_or_none :: "nat list \<Rightarrow> real option" where
  "mean_or_none ls = (if ls = [] then None else Some (mean (map real ls)))"

text \<open>A column of the sample has zero variance: its squared deviations from the mean sum to 0.\<close>

definition zero_variance :: "int list \<Rightarrow> bool" where
  "zero_variance xs =
     (sum_list (map (\<lambda>v. (real_of_int v - mean (map real_of_int xs))\<^sup>2) xs) = 0)"

text \<open>A degenerate sample: fewer than two points, or zero variance in a column.\<close>

definition degenerate :: "(int \<times> nat) list \<Rightarrow> bool" where
  "degenerate records =
     (length records < 2 \<or> zero_variance (map fst records)
      \<or> zero_variance (map (\<lambda>rl. int (snd rl)) records))"

text \<open>
  An explicit outcome of \<open>rating_length_correlation\<close> that says there is no usable
  result: the tagged error dictionary, not an exception and not the dictionary of numbers.
\<close>

definition reports_undefined :: "py_error + correlation_response \<Rightarrow> bool" where
  "reports_undefined res =
     (case res of Inr (CorrelationError msg) \<Rightarrow> True | Inr (CorrelationStats t r p) \<Rightarrow> False
      | Inl e \<Rightarrow> False)"

text \<open>
  A text in which every numeric character is a letter or a decimal digit, and no letter
  is a decimal digit or the underscore: on such a text the class \<open>[^\W\d_]\<close> and the
  letters coincide. Every ASCII text is one.
\<close>

definition only_letters_and_plain :: "ucd \<Rightarrow> str \<Rightarrow> bool" where
  "only_letters_and_plain U t =
     list_all (\<lambda>c. (isalpha U c \<or> isdecimal U c \<or> (\<not> isdigit U c \<and> \<not> isnumeric U c))
                    \<and> \<not> (isalpha U c \<and> (isdecimal U c \<or> c = underscore))) t"

section \<open>Sample inputs\<close>

text \<open>A table whose only row has every nullable column empty: each query leaves it out.\<close>

definition db_null :: "review list" where
  "db_null = [\<lparr>review_id = 1, rating = None, review_text = None, review_date = None,
     polarity = None\<rparr>]"

text \<open>
  \<open>btdtr(1, 1, x) = x\<close>, the integral for a sample of four points; the samples below have
  fewer than three points or a constant column, where \<open>pearsonr\<close> does not reach it.
\<close>

definition btdtr_11 :: "real \<Rightarrow> real \<Rightarrow> real \<Rightarrow> real" where
  "btdtr_11 a b x = x"

text \<open>Three reviews with lexicon words.\<close>

definition r1 :: review where
  "r1 = \<lparr>review_id = 1, rating = Some 5, review_text = Some (py ''Clean, great great!''),
     review_date = None, polarity = None\<rparr>"

definition r2 :: review where
  "r2 = \<lparr>review_id = 2, rating = Some 2, review_text = Some (py ''Bad but nice''),
     review_date = None, polarity = None\<rparr>"

definition r3 :: review where
  "r3 = \<lparr>review_id = 3, rating = Some 3, review_text = Some (py ''nice bad''),
     review_date = None, polarity = None\<rparr>"

text \<open>
  Reviews for the trend, not in the order of their days: Tuesday 10 February 2015; two
  of Monday 5 January 2015; Sunday 11 January 2015, the last day of the same week; and
  Sunday 5 January 2014, a January of another year.
\<close>

definition rv :: "int \<Rightarrow> int \<Rightarrow> int \<Rightarrow> int \<Rightarrow> real \<Rightarrow> review" where
  "rv i y m d p = \<lparr>review_id = i, rating = None, review_text = None,
     review_date = Some \<lparr>year = y, month = m, day = d, hour = 12, minute = 0, second = 0,
       microsecond = 0\<rparr>,
     polarity = Some p\<rparr>"

definition db_trend :: "review list" where
  "db_trend = [rv 1 2015 2 10 0.4, rv 2 2015 1 5 0.2, rv 3 2015 1 5 0.8, rv 4 2015 1 11 0.5,
     rv 5 2014 1 5 0.6]"

text \<open>
  Reviews for the correlation: a rating off the scale beside one on it; the five ratings
  with texts of five letters each; a single review.
\<close>

definition rt :: "int \<Rightarrow> int \<Rightarrow> string \<Rightarrow> review" where
  "rt i k s = \<lparr>review_id = i, rating = Some k, review_text = Some (py s), review_date = None,
     polarity = None\<rparr>"

definition db_outlier :: "review list" where
  "db_outlier = [rt 1 1 ''abc'', rt 2 9 ''hello'']"

definition db_flat :: "review list" where
  "db_flat = [rt 1 1 ''aaaaa'', rt 2 2 ''bbbbb'', rt 3 3 ''ccccc'', rt 4 4 ''ddddd'',
     rt 5 5 ''eeeee'']"

definition db_single :: "review list" where
  "db_single = [rt 1 4 ''good'']"

section \<open>Properties\<close>

lemmas latin1_simps = latin1_def latin1_tolower_def re_w_def isalnum_def latin1_alpha_def
  latin1_decimal_def latin1_digit_def latin1_numeric_def underscore_def search_letter_def
  letter_class_def re_d_def

subsection \<open>Empty query results\<close>

text \<open>
  C2. When the query of \<open>sentiment_trend\<close> returns no row, the endpoint returns its error
  dictionary, and so does \<open>rating_length_correlation\<close> when its query returns no row:
  a tagged outcome, not an exception and not a series.
\<close>

theorem empty_no_data:
  "(sentiment_trend_query db start_date end_date = []
      \<longrightarrow> sentiment_trend db start_date end_date interval
            = TrendError ''Tidak ada data pada rentang ini.'')
   \<and> (correlation_query db start_date end_date = []
      \<longrightarrow> rating_length_correlation U btdtr db start_date end_date
            = Inr (CorrelationError ''Tidak ada review dalam rentang ini.''))"
  by (simp add: sentiment_trend_def rating_length_correlation_def)

theorem empty_no_data_witness:
  "sentiment_trend_query db_null None None = []
   \<and> sentiment_trend db_null None None (py ''weekly'') = TrendError ''Tidak ada data pada rentang ini.''
   \<and> correlation_query db_null None None = []
   \<and> rating_length_correlation latin1 btdtr_11 db_null None None
        = Inr (CorrelationError ''Tidak ada review dalam rentang ini.'')"
proof -
  have q1: "sentiment_trend_query db_null None None = []"
    by (simp add: sentiment_trend_query_def db_null_def)
  have q2: "correlation_query db_null None None = []"
    by (simp add: correlation_query_def db_null_def)
  from empty_no_data [of db_null None None "py ''weekly''" latin1 btdtr_11] q1 q2
  show ?thesis by simp
qed

text \<open>
  C10. When the query of \<open>word_frequency\<close> returns no row, the endpoint still returns its
  result: nothing scanned, no review with a positive or a negative word, and two empty
  lists of top words.
\<close>

theorem word_frequency_empty:
  "word_frequency_query db start_date end_date = []
   \<Longrightarrow> word_frequency U db start_date end_date k
       = \<lparr>total_reviews_scanned = 0, reviews_with_positive_words = 0,
          reviews_with_negative_words = 0, top_k = k,
          positive_top_words = [], negative_top_words = []\<rparr>"
  by (simp add: word_frequency_def word_frequency_of_def scan_init_def most_common_def)

theorem word_frequency_empty_witness:
  "word_frequency_query db_null None None = []
   \<and> word_frequency latin1 db_null None None 20
       = \<lparr>total_reviews_scanned = 0, reviews_with_positive_words = 0,
          reviews_with_negative_words = 0, top_k = 20,
          positive_top_words = [], negative_top_words = []\<rparr>"
proof -
  have q: "word_frequency_query db_null None None = []"
    by (simp add: word_frequency_query_def db_null_def)
  from word_frequency_empty [OF q, of latin1 20] q show ?thesis by simp
qed

subsection \<open>The counters of word_frequency\<close>

lemma counter_get_update:
  "counter_get (counter_update c w) v = counter_get c v + (if v = w then 1 else 0)"
  by (induction c w rule: counter_update.induct) (auto simp: counter_get_def)

lemma keys_counter_update:
  "map fst (counter_update c w) = (if w \<in> set (map fst c) then map fst c else map fst c @ [w])"
  by (induction c w rule: counter_update.induct) auto

lemma scan_words_eq:
  "scan_words ws (pc, nc, fp, fn) =
     (foldl counter_update pc (filter (\<lambda>w. w \<in> POSITIVE_WORDS) ws),
      foldl counter_update nc (filter (\<lambda>w. w \<in> NEGATIVE_WORDS) ws),
      fp \<or> list_ex (\<lambda>w. w \<in> POSITIVE_WORDS) ws,
      fn \<or> list_ex (\<lambda>w. w \<in> NEGATIVE_WORDS) ws)"
  by (induction ws arbitrary: pc nc fp fn) auto

lemma counter_get_foldl:
  "counter_get (foldl counter_update c ws) v = counter_get c v + count_list ws v"
  by (induction ws arbitrary: c) (auto simp: counter_get_update)

lemma scan_review_pos_counter:
  "pos_counter (scan_review U r st) =
     foldl counter_update (pos_counter st) (filter (\<lambda>w. w \<in> POSITIVE_WORDS) (review_words U r))"
  by (auto simp: scan_review_def review_words_def Let_def scan_words_eq)

lemma scan_review_neg_counter:
  "neg_counter (scan_review U r st) =
     foldl counter_update (neg_counter st) (filter (\<lambda>w. w \<in> NEGATIVE_WORDS) (review_words U r))"
  by (auto simp: scan_review_def review_words_def Let_def scan_words_eq)






lemma sample_words:
  "review_words latin1 r1 = [py ''clean'', py ''great'', py ''great'']"
  "review_words latin1 r2 = [py ''bad'', py ''nice'']"
  "review_words latin1 r3 = [py ''nice'', py ''bad'']"
  by (simp_all add: review_words_def r1_def r2_def r3_def extract_clean_words_def py_def
      latin1_simps STOPWORDS_def)


lemma first_seen_snoc:
  "first_seen (xs @ [x]) = (if x \<in> set xs then first_seen xs else first_seen xs @ [x])"
  by (simp add: first_seen_def)

lemma set_first_seen: "set (first_seen xs) = set xs"
  by (simp add: first_seen_def)

lemma distinct_first_seen: "distinct (first_seen xs)"
  by (simp add: first_seen_def)

lemma keys_foldl_counter_update:
  "map fst (foldl counter_update [] ws) = first_seen ws"
proof (induction ws rule: rev_induct)
  case Nil
  show ?case by (simp add: first_seen_def)
next
  case (snoc w ws)
  have "set (map fst (foldl counter_update [] ws)) = set ws"
    using snoc by (simp add: set_first_seen)
  then show ?case
    using snoc by (simp add: keys_counter_update first_seen_snoc)
qed

lemma first_index_snoc_in:
  "a \<in> set xs \<Longrightarrow> first_index (xs @ [x]) a = first_index xs a"
  by (simp add: first_index_def takeWhile_append1)

lemma first_index_less: "a \<in> set xs \<Longrightarrow> first_index xs a < length xs"
  unfolding first_index_def by (induction xs) auto

lemma first_index_snoc_new:
  "x \<notin> set xs \<Longrightarrow> first_index (xs @ [x]) x = length xs"
  unfolding first_index_def by (induction xs) auto

lemma first_seen_ordered:
  "sorted_wrt (\<lambda>a b. first_index xs a < first_index xs b) (first_seen xs)"
proof (induction xs rule: rev_induct)
  case Nil
  show ?case by (simp add: first_seen_def)
next
  case (snoc x xs)
  have mono: "sorted_wrt (\<lambda>a b. first_index (xs @ [x]) a < first_index (xs @ [x]) b) (first_seen xs)"
    using snoc
    by (rule sorted_wrt_mono_rel [rotated]) (simp add: set_first_seen first_index_snoc_in)
  show ?case
  proof (cases "x \<in> set xs")
    case True
    then show ?thesis using mono by (simp add: first_seen_snoc)
  next
    case False
    then show ?thesis
      using mono
      by (auto simp: first_seen_snoc sorted_wrt_append set_first_seen first_index_snoc_in
          first_index_snoc_new first_index_less)
  qed
qed

lemma stable_ties:
  "(\<And>c. sorted_wrt R (filter (\<lambda>x. f x = c) xs)) \<Longrightarrow> sorted_wrt (\<lambda>a b. f a = f b \<longrightarrow> R a b) xs"
proof (induction xs)
  case Nil
  show ?case by simp
next
  case (Cons x xs)
  have tail: "\<And>c. sorted_wrt R (filter (\<lambda>x. f x = c) xs)"
  proof -
    fix c
    from Cons.prems [of c] show "sorted_wrt R (filter (\<lambda>x. f x = c) xs)"
      by (cases "f x = c") auto
  qed
  have head: "\<forall>y\<in>set xs. f x = f y \<longrightarrow> R x y"
    using Cons.prems [of "f x"] by auto
  from Cons.IH [OF tail] head show ?case by simp
qed

lemma sort_key_ties:
  assumes "sorted_wrt R xs"
  shows "sorted_wrt (\<lambda>a b. f a = f b \<longrightarrow> R a b) (sort_key f xs)"
proof (rule stable_ties)
  fix c
  show "sorted_wrt R (filter (\<lambda>x. f x = c) (sort_key f xs))"
    using assms by (simp add: sort_key_stable sorted_wrt_filter)
qed

lemma fold_scan_pos_counter:
  "pos_counter (fold (scan_review U) reviews st)
     = foldl counter_update (pos_counter st) (lexicon_hits U POSITIVE_WORDS reviews)"
  by (induction reviews arbitrary: st) (simp_all add: lexicon_hits_def scan_review_pos_counter)

lemma fold_scan_neg_counter:
  "neg_counter (fold (scan_review U) reviews st)
     = foldl counter_update (neg_counter st) (lexicon_hits U NEGATIVE_WORDS reviews)"
  by (induction reviews arbitrary: st) (simp_all add: lexicon_hits_def scan_review_neg_counter)

lemma counter_get_entry:
  "distinct (map fst c) \<Longrightarrow> p \<in> set c \<Longrightarrow> counter_get c (fst p) = snd p"
  by (cases p) (simp add: counter_get_def)

lemma counter_entries:
  assumes "p \<in> set (foldl counter_update [] hits)"
  shows "fst p \<in> set hits \<and> snd p = count_list hits (fst p)"
proof -
  let ?c = "foldl counter_update [] hits"
  have d: "distinct (map fst ?c)"
    by (simp add: keys_foldl_counter_update distinct_first_seen)
  have "fst p \<in> set (map fst ?c)" using assms by force
  then have k: "fst p \<in> set hits"
    by (simp only: keys_foldl_counter_update set_first_seen)
  have "snd p = counter_get ?c (fst p)"
    using counter_get_entry [OF d assms] by simp
  also have "\<dots> = counter_get [] (fst p) + count_list hits (fst p)"
    by (rule counter_get_foldl)
  also have "\<dots> = count_list hits (fst p)"
    by (simp add: counter_get_def)
  finally show ?thesis using k by simp
qed

lemma counter_ordered:
  "sorted_wrt (\<lambda>a b. first_index hits (fst a) < first_index hits (fst b)) (foldl counter_update [] hits)"
proof -
  have "sorted_wrt (\<lambda>a b. first_index hits a < first_index hits b)
          (map fst (foldl counter_update [] hits))"
    by (simp only: keys_foldl_counter_update first_seen_ordered)
  then show ?thesis by (simp add: sorted_wrt_map)
qed

lemma sorted_wrt_conj:
  "sorted_wrt P xs \<Longrightarrow> sorted_wrt Q xs \<Longrightarrow> sorted_wrt (\<lambda>a b. P a b \<and> Q a b) xs"
  by (induction xs) auto

lemma most_common_ranked:
  "top_ranked hits k (most_common (foldl counter_update [] hits) k)"
proof -
  let ?c = "foldl counter_update [] hits"
  let ?f = "\<lambda>kv::str \<times> nat. - int (snd kv)"
  let ?s = "sort_key ?f ?c"
  let ?R = "\<lambda>a b::str \<times> nat. first_index hits (fst a) < first_index hits (fst b)"
  have len: "length (most_common ?c k) = min k (length (first_seen hits))"
  proof -
    have "length ?c = length (map fst ?c)" by simp
    also have "\<dots> = length (first_seen hits)" by (simp only: keys_foldl_counter_update)
    finally show ?thesis by (simp add: most_common_def min.commute)
  qed
  have ent: "list_all (\<lambda>p. fst p \<in> set hits \<and> snd p = count_list hits (fst p)) (most_common ?c k)"
    unfolding list_all_iff most_common_def
    using counter_entries [of _ hits] by (auto dest!: in_set_takeD)
  have desc: "sorted_wrt (\<lambda>a b. ?f a \<le> ?f b) ?s"
    using sorted_sort_key [of ?f ?c] by (simp add: sorted_map)
  have ties: "sorted_wrt (\<lambda>a b. ?f a = ?f b \<longrightarrow> ?R a b) ?s"
    by (rule sort_key_ties) (rule counter_ordered)
  have both: "sorted_wrt (\<lambda>a b. ?f a \<le> ?f b \<and> (?f a = ?f b \<longrightarrow> ?R a b)) ?s"
    by (rule sorted_wrt_conj [OF desc ties])
  have full: "sorted_wrt (\<lambda>a b. snd b < snd a \<or> (snd a = snd b \<and> ?R a b)) ?s"
    by (rule sorted_wrt_mono_rel [OF _ both]) auto
  have ord: "sorted_wrt (\<lambda>a b. snd b < snd a \<or> (snd a = snd b \<and> ?R a b)) (most_common ?c k)"
    unfolding most_common_def by (rule sorted_wrt_take [OF full])
  have rest: "list_all (\<lambda>w. w \<in> set (map fst (most_common ?c k))
                \<or> list_all (\<lambda>p. count_list hits w \<le> snd p) (most_common ?c k)) hits"
    unfolding list_all_iff
  proof (intro ballI)
    fix w assume w: "w \<in> set hits"
    show "w \<in> set (map fst (most_common ?c k))
            \<or> (\<forall>p\<in>set (most_common ?c k). count_list hits w \<le> snd p)"
    proof (cases "w \<in> set (map fst (most_common ?c k))")
      case True
      then show ?thesis by simp
    next
      case False
      have "w \<in> set (map fst ?c)"
        using w by (simp only: keys_foldl_counter_update set_first_seen)
      then obtain q where q: "q \<in> set ?c" "fst q = w" by auto
      have qn: "snd q = count_list hits w"
        using counter_entries [OF q(1)] q(2) by simp
      have "q \<in> set ?s" using q(1) by simp
      then have "q \<in> set (take k ?s) \<or> q \<in> set (drop k ?s)"
        using set_append [of "take k ?s" "drop k ?s"] by (simp del: set_append)
      moreover have "q \<notin> set (take k ?s)"
        using False q(2) by (auto simp: most_common_def)
      ultimately have qd: "q \<in> set (drop k ?s)" by simp
      have "sorted_wrt (\<lambda>a b. ?f a \<le> ?f b) (take k ?s @ drop k ?s)"
        using desc by simp
      then have "\<forall>p\<in>set (take k ?s). ?f p \<le> ?f q"
        using qd unfolding sorted_wrt_append by blast
      then show ?thesis using qn by (auto simp: most_common_def)
    qed
  qed
  show ?thesis
    unfolding top_ranked_def using len ent ord rest by blast
qed

text \<open>
  C3. Each of the two lists of top words that \<open>word_frequency\<close> returns for the limit
  \<open>k\<close> has at most \<open>k\<close> pairs (exactly \<open>k\<close>, or all the words found when they are fewer),
  each pair a lexicon word found in the scan with its total number of occurrences; the
  pairs go by falling count, and pairs of equal count in the order in which their words
  were first met in the scan.
\<close>

theorem top_words_ranked:
  "top_ranked (lexicon_hits U POSITIVE_WORDS reviews) k (positive_top_words (word_frequency_of U reviews k))
   \<and> top_ranked (lexicon_hits U NEGATIVE_WORDS reviews) k (negative_top_words (word_frequency_of U reviews k))"
  by (simp add: word_frequency_of_def Let_def fold_scan_pos_counter fold_scan_neg_counter
      scan_init_def most_common_ranked)

theorem top_words_ranked_witness:
  "positive_top_words (word_frequency_of latin1 [r1, r2, r3] 2) = [(py ''great'', 2), (py ''nice'', 2)]
   \<and> lexicon_hits latin1 POSITIVE_WORDS [r1, r2, r3]
        = [py ''clean'', py ''great'', py ''great'', py ''nice'', py ''nice'']
   \<and> top_ranked [py ''clean'', py ''great'', py ''great'', py ''nice'', py ''nice''] 2
        [(py ''great'', 2), (py ''nice'', 2)]
   \<and> negative_top_words (word_frequency_of latin1 [r1, r2, r3] 2) = [(py ''bad'', 2)]
   \<and> lexicon_hits latin1 NEGATIVE_WORDS [r1, r2, r3] = [py ''bad'', py ''bad'']
   \<and> top_ranked [py ''bad'', py ''bad''] 2 [(py ''bad'', 2)]"
proof -
  have hp: "lexicon_hits latin1 POSITIVE_WORDS [r1, r2, r3]
        = [py ''clean'', py ''great'', py ''great'', py ''nice'', py ''nice'']"
    by (simp add: lexicon_hits_def sample_words) (simp add: POSITIVE_WORDS_def py_def)
  have hn: "lexicon_hits latin1 NEGATIVE_WORDS [r1, r2, r3] = [py ''bad'', py ''bad'']"
    by (simp add: lexicon_hits_def sample_words) (simp add: NEGATIVE_WORDS_def py_def)
  have pc: "pos_counter (fold (scan_review latin1) [r1, r2, r3] scan_init)
        = foldl counter_update (pos_counter scan_init)
            [py ''clean'', py ''great'', py ''great'', py ''nice'', py ''nice'']"
    unfolding hp [symmetric] by (rule fold_scan_pos_counter)
  have nc: "neg_counter (fold (scan_review latin1) [r1, r2, r3] scan_init)
        = foldl counter_update (neg_counter scan_init) [py ''bad'', py ''bad'']"
    unfolding hn [symmetric] by (rule fold_scan_neg_counter)
  have tp: "positive_top_words (word_frequency_of latin1 [r1, r2, r3] 2)
        = [(py ''great'', 2), (py ''nice'', 2)]"
    unfolding word_frequency_of_def Let_def pc
    by (simp add: scan_init_def most_common_def py_def)
  have tn: "negative_top_words (word_frequency_of latin1 [r1, r2, r3] 2) = [(py ''bad'', 2)]"
    unfolding word_frequency_of_def Let_def nc
    by (simp add: scan_init_def most_common_def py_def)
  from top_words_ranked [of latin1 "[r1, r2, r3]" 2] show ?thesis
    by (simp add: hp hn tp tn)
qed


subsection \<open>The tokenizer\<close>

lemma clean_tokens_filter: "clean_tokens U ts = filter (keeps U) ts"
  by (induction ts) (auto simp: keeps_def)

lemma findall_tokens:
  "t \<in> set (WORD_PATTERN_findall U s) \<Longrightarrow> t \<noteq> [] \<and> list_all (re_w U) t \<and> set t \<subseteq> set s"
proof (induction U s rule: WORD_PATTERN_findall.induct)
  case (1 U)
  then show ?case by simp
next
  case (2 U c cs)
  show ?case
  proof (cases "re_w U c")
    case True
    from 2(3) True have "t = c # takeWhile (re_w U) cs \<or> t \<in> set (WORD_PATTERN_findall U (dropWhile (re_w U) cs))"
      by simp
    then show ?thesis
    proof
      assume "t = c # takeWhile (re_w U) cs"
      then show ?thesis using True
        by (auto simp: list_all_iff dest: set_takeWhileD)
    next
      assume "t \<in> set (WORD_PATTERN_findall U (dropWhile (re_w U) cs))"
      from 2(1) [OF True this] show ?thesis
        by (auto dest: set_dropWhileD)
    qed
  next
    case False
    with 2(3) have "t \<in> set (WORD_PATTERN_findall U cs)" by simp
    from 2(2) [OF False this] show ?thesis by auto
  qed
qed

lemma concat_findall: "concat (WORD_PATTERN_findall U s) = filter (re_w U) s"
proof (induction U s rule: WORD_PATTERN_findall.induct)
  case (1 U)
  show ?case by simp
next
  case (2 U c cs)
  show ?case
  proof (cases "re_w U c")
    case True
    have "filter (re_w U) cs = takeWhile (re_w U) cs @ filter (re_w U) (dropWhile (re_w U) cs)"
      by (induction cs) auto
    then show ?thesis using True 2(1) by simp
  next
    case False
    then show ?thesis using 2(2) by simp
  qed
qed

lemma findall_word:
  assumes "w \<noteq> []" "list_all (re_w U) w"
  shows "WORD_PATTERN_findall U w = [w]"
proof -
  obtain c cs where w: "w = c # cs" using assms(1) by (cases w) auto
  have all: "\<forall>x\<in>set cs. re_w U x" and c: "re_w U c"
    using assms(2) w by (auto simp: list_all_iff)
  have t: "takeWhile (re_w U) cs = cs"
    using all by (simp add: takeWhile_eq_all_conv)
  have d: "dropWhile (re_w U) cs = []"
    using all by simp
  show ?thesis unfolding w by (simp add: c t d)
qed

lemma findall_word_sep:
  assumes "w \<noteq> []" "list_all (re_w U) w" "\<not> re_w U sep"
  shows "WORD_PATTERN_findall U (w @ sep # rest) = w # WORD_PATTERN_findall U rest"
proof -
  obtain c cs where w: "w = c # cs" using assms(1) by (cases w) auto
  have all: "\<forall>x\<in>set cs. re_w U x" and c: "re_w U c"
    using assms(2) w by (auto simp: list_all_iff)
  have t: "takeWhile (re_w U) (cs @ sep # rest) = cs"
    using all assms(3) by (simp add: takeWhile_append2)
  have d: "dropWhile (re_w U) (cs @ sep # rest) = sep # rest"
    using all assms(3) by (simp add: dropWhile_append2)
  show ?thesis unfolding w by (simp add: c t d assms(3))
qed

lemma findall_join:
  "\<not> re_w U sep \<Longrightarrow> (\<forall>w\<in>set ws. w \<noteq> [] \<and> list_all (re_w U) w)
     \<Longrightarrow> WORD_PATTERN_findall U (str_join sep ws) = ws"
proof (induction sep ws rule: str_join.induct)
  case (1 sep)
  show ?case by simp
next
  case (2 sep w)
  then show ?case by (simp add: findall_word)
next
  case (3 sep w v ws)
  have "WORD_PATTERN_findall U (w @ sep # str_join sep (v # ws))
          = w # WORD_PATTERN_findall U (str_join sep (v # ws))"
    using "3.prems" by (intro findall_word_sep) auto
  also have "WORD_PATTERN_findall U (str_join sep (v # ws)) = v # ws"
    using "3.prems" by (intro "3.IH") auto
  finally show ?case by simp
qed

lemma set_str_join: "set (str_join sep ws) \<subseteq> insert sep (\<Union>(set ` set ws))"
  by (induction sep ws rule: str_join.induct) auto

lemma extract_Some:
  "extract_clean_words U (Some t) = (if t = [] then [] else filter (keeps U) (WORD_PATTERN_findall U (lower U t)))"
  by (simp add: extract_clean_words_def clean_tokens_filter)

lemma extract_tokens:
  assumes "w \<in> set (extract_clean_words U text)"
  shows "keeps U w \<and> w \<noteq> [] \<and> list_all (re_w U) w
         \<and> (\<exists>t. text = Some t \<and> set w \<subseteq> set (lower U t))"
proof (cases "text")
  case None
  with assms show ?thesis by (simp add: extract_clean_words_def)
next
  case (Some t)
  with assms have "t \<noteq> []" and k: "keeps U w" and f: "w \<in> set (WORD_PATTERN_findall U (lower U t))"
    by (auto simp: extract_Some split: if_splits)
  from findall_tokens [OF f] k Some show ?thesis by simp
qed

lemma concat_singletons: "(\<And>x. x \<in> set xs \<Longrightarrow> f x = [x]) \<Longrightarrow> concat (map f xs) = xs"
  by (induction xs) auto

lemma str_join_nonempty: "ws \<noteq> [] \<Longrightarrow> \<forall>w\<in>set ws. w \<noteq> [] \<Longrightarrow> str_join sep ws \<noteq> []"
  by (induction sep ws rule: str_join.induct) auto

text \<open>
  C9. Tokenizing is idempotent: for a \<open>lower\<close> that is settled, extracting the clean words
  of each token of a cleaned sequence gives that token back, so the sequence as a whole;
  and so does extracting the clean words of the tokens joined by a separator that is not
  a word character and that \<open>lower\<close> leaves alone (a space). \<open>str.lower\<close> is settled: it
  maps each character by the lower-case mapping of Unicode, whose images have no
  lower-case mapping of their own, and treats only the capital sigma by its context.
\<close>

theorem tokenization_idempotent:
  assumes "lower_settled U" and "\<not> re_w U sep" and "lower U [sep] = [sep]"
  shows "concat (map (\<lambda>w. extract_clean_words U (Some w)) (extract_clean_words U text))
           = extract_clean_words U text
         \<and> extract_clean_words U (Some (str_join sep (extract_clean_words U text)))
           = extract_clean_words U text"
proof -
  let ?ws = "extract_clean_words U text"
  have fixed: "lower U s = s" if "\<forall>c\<in>set s. lower U [c] = [c]" for s
    using assms(1) that unfolding lower_settled_def list_all_iff by blast
  have out: "lower U [c] = [c]" if "c \<in> set (lower U s)" for c s
    using assms(1) that unfolding lower_settled_def list_all_iff by blast
  have tok: "keeps U w \<and> w \<noteq> [] \<and> list_all (re_w U) w \<and> (\<forall>c\<in>set w. lower U [c] = [c])"
    if "w \<in> set ?ws" for w
  proof -
    from extract_tokens [OF that] obtain t where
      k: "keeps U w" "w \<noteq> []" "list_all (re_w U) w" and s: "set w \<subseteq> set (lower U t)"
      by blast
    from s out have "\<forall>c\<in>set w. lower U [c] = [c]" by blast
    with k show ?thesis by simp
  qed
  have one: "extract_clean_words U (Some w) = [w]" if "w \<in> set ?ws" for w
  proof -
    from tok [OF that] have k: "keeps U w" "w \<noteq> []" "list_all (re_w U) w"
      and c: "\<forall>c\<in>set w. lower U [c] = [c]" by simp_all
    from c have l: "lower U w = w" by (rule fixed)
    have f: "WORD_PATTERN_findall U w = [w]" using k(2,3) by (rule findall_word)
    show ?thesis by (simp add: extract_Some l f k)
  qed
  have first: "concat (map (\<lambda>w. extract_clean_words U (Some w)) ?ws) = ?ws"
    by (rule concat_singletons) (rule one)
  have second: "extract_clean_words U (Some (str_join sep ?ws)) = ?ws"
  proof (cases "?ws = []")
    case True
    then show ?thesis by (simp add: extract_clean_words_def)
  next
    case False
    have "\<forall>c\<in>set (str_join sep ?ws). lower U [c] = [c]"
    proof
      fix c assume "c \<in> set (str_join sep ?ws)"
      with set_str_join [of sep ?ws] have "c = sep \<or> (\<exists>w\<in>set ?ws. c \<in> set w)" by auto
      then show "lower U [c] = [c]" using tok assms(3) by blast
    qed
    then have l: "lower U (str_join sep ?ws) = str_join sep ?ws" by (rule fixed)
    have f: "WORD_PATTERN_findall U (str_join sep ?ws) = ?ws"
    proof (rule findall_join [OF assms(2)])
      show "\<forall>w\<in>set ?ws. w \<noteq> [] \<and> list_all (re_w U) w"
        using tok by blast
    qed
    have k: "filter (keeps U) ?ws = ?ws"
      unfolding filter_id_conv using tok by blast
    have n: "str_join sep ?ws \<noteq> []"
    proof (rule str_join_nonempty [OF False])
      show "\<forall>w\<in>set ?ws. w \<noteq> []" using tok by blast
    qed
    show ?thesis by (simp add: extract_Some l f k n)
  qed
  from first second show ?thesis by simp
qed

lemma latin1_lower_settled: "lower_settled latin1"
proof -
  have idem: "latin1_tolower (latin1_tolower c) = latin1_tolower c" for c
    by (simp add: latin1_tolower_def)
  have one: "list_all (\<lambda>c. lower latin1 [c] = [c]) (lower latin1 s)" for s
    by (simp add: latin1_def list_all_iff idem)
  have two: "list_all (\<lambda>c. lower latin1 [c] = [c]) s \<longrightarrow> lower latin1 s = s" for s
    by (simp add: latin1_def list_all_iff map_idI)
  show ?thesis unfolding lower_settled_def using one two by blast
qed

theorem tokenization_idempotent_witness:
  "lower_settled latin1 \<and> \<not> re_w latin1 32 \<and> lower latin1 [32] = [32]
   \<and> extract_clean_words latin1 (Some (py ''Clean, great great!''))
        = [py ''clean'', py ''great'', py ''great'']
   \<and> str_join 32 [py ''clean'', py ''great'', py ''great''] = py ''clean great great''
   \<and> extract_clean_words latin1 (Some (py ''clean great great''))
        = [py ''clean'', py ''great'', py ''great'']
   \<and> concat (map (\<lambda>w. extract_clean_words latin1 (Some w)) [py ''clean'', py ''great'', py ''great''])
        = [py ''clean'', py ''great'', py ''great'']"
proof -
  have a: "\<not> re_w latin1 32" by (simp add: latin1_simps)
  have b: "lower latin1 [32] = [32]" by (simp add: latin1_simps)
  have e: "extract_clean_words latin1 (Some (py ''Clean, great great!''))
        = [py ''clean'', py ''great'', py ''great'']"
    by (simp add: extract_clean_words_def py_def latin1_simps STOPWORDS_def)
  from tokenization_idempotent [OF latin1_lower_settled a b, of "Some (py ''Clean, great great!'')"]
  show ?thesis by (simp add: latin1_lower_settled a b e) (simp add: py_def)
qed


subsection \<open>The calendar\<close>

lemma div_step:
  fixes a k :: int
  assumes "0 < k"
  shows "(a + 1) div k = a div k + (if k dvd a + 1 then 1 else 0)"
proof (cases "a mod k = k - 1")
  case True
  have "a + 1 = k * (a div k) + (a mod k + 1)" by simp
  also have "\<dots> = k * (a div k) + k" using True by simp
  also have "\<dots> = k * (a div k + 1)" by (simp add: distrib_left)
  finally have e: "a + 1 = k * (a div k + 1)" .
  have "k dvd a + 1" unfolding e by simp
  moreover have "(a + 1) div k = a div k + 1"
    unfolding e using assms by simp
  ultimately show ?thesis by simp
next
  case False
  have r: "0 \<le> a mod k" "a mod k < k" using assms by simp_all
  with False have r1: "0 \<le> a mod k + 1" "a mod k + 1 < k" by simp_all
  have e: "a + 1 = k * (a div k) + (a mod k + 1)" by simp
  have d: "(a + 1) div k = a div k"
    by (rule int_div_pos_eq [OF e r1])
  have m: "(a + 1) mod k = a mod k + 1"
    by (rule int_mod_pos_eq [OF e r1])
  have "\<not> k dvd a + 1"
    using m r1 r by (simp add: dvd_eq_mod_eq_0)
  with d show ?thesis by simp
qed

lemma days_before_year_Suc:
  "days_before_year (y + 1) = days_before_year y + (if is_leap y then 366 else 365)"
proof -
  define q4 q100 q400 where "q4 = (y - 1) div 4" and "q100 = (y - 1) div 100"
    and "q400 = (y - 1) div 400"
  have d4: "y div 4 = q4 + (if 4 dvd y then 1 else 0)"
    using div_step [of 4 "y - 1"] by (simp add: q4_def)
  have d100: "y div 100 = q100 + (if 100 dvd y then 1 else 0)"
    using div_step [of 100 "y - 1"] by (simp add: q100_def)
  have d400: "y div 400 = q400 + (if 400 dvd y then 1 else 0)"
    using div_step [of 400 "y - 1"] by (simp add: q400_def)
  have a: "400 dvd y \<Longrightarrow> 100 dvd y" by (rule dvd_trans [of 100 400]) simp_all
  have b: "100 dvd y \<Longrightarrow> 4 dvd y" by (rule dvd_trans [of 4 100]) simp_all
  have l: "is_leap y = (4 dvd y \<and> (\<not> 100 dvd y \<or> 400 dvd y))"
    by (simp add: is_leap_def dvd_eq_mod_eq_0)
  have lhs: "days_before_year (y + 1) = y * 365 + y div 4 - y div 100 + y div 400"
    by (simp add: days_before_year_def)
  have rhs: "days_before_year y = (y - 1) * 365 + q4 - q100 + q400"
    by (simp add: days_before_year_def q4_def q100_def q400_def)
  consider (c1) "\<not> 4 dvd y" | (c2) "4 dvd y" "\<not> 100 dvd y"
    | (c3) "100 dvd y" "\<not> 400 dvd y" | (c4) "400 dvd y"
    by blast
  then show ?thesis
  proof cases
    case c1
    with a b have "\<not> 100 dvd y" "\<not> 400 dvd y" by blast+
    with c1 show ?thesis by (simp add: lhs rhs l d4 d100 d400)
  next
    case c2
    with a have "\<not> 400 dvd y" by blast
    with c2 show ?thesis by (simp add: lhs rhs l d4 d100 d400)
  next
    case c3
    with b have "4 dvd y" by blast
    with c3 show ?thesis by (simp add: lhs rhs l d4 d100 d400)
  next
    case c4
    with a b have "100 dvd y" "4 dvd y" by blast+
    with c4 show ?thesis by (simp add: lhs rhs l d4 d100 d400)
  qed
qed

lemma days_before_year_mono: "y \<le> y' \<Longrightarrow> days_before_year y \<le> days_before_year y'"
proof (induction y' rule: int_ge_induct)
  case base
  show ?case by simp
next
  case (step i)
  have "days_before_year i \<le> days_before_year (i + 1)"
    unfolding days_before_year_Suc by simp
  with step show ?case by simp
qed

lemma days_in_month_pos: "28 \<le> days_in_month y m"
  by (simp add: days_in_month_def)

lemma days_before_month_Suc:
  "1 \<le> m \<Longrightarrow> days_before_month y (m + 1) = days_before_month y m + days_in_month y m"
  by (simp add: days_before_month_def upto_rec2)

lemma days_before_month_mono:
  assumes "1 \<le> m" and "m \<le> m'"
  shows "days_before_month y m \<le> days_before_month y m'"
  using assms(2)
proof (induction m' rule: int_ge_induct)
  case base
  show ?case by simp
next
  case (step i)
  have "1 \<le> i" using step assms(1) by simp
  from days_before_month_Suc [OF this, of y] step days_in_month_pos [of y i]
  show ?case by simp
qed

lemma days_before_month_13:
  "days_before_month y 13 = (if is_leap y then 366 else 365)"
  by (simp add: days_before_month_def upto_rec1 days_in_month_def)

lemma days_before_month_nonneg: "1 \<le> m \<Longrightarrow> 0 \<le> days_before_month y m"
  using days_before_month_mono [of 1 m y] by (simp add: days_before_month_def)

lemma ymd2ord_mono:
  assumes "valid_date y m d" "valid_date y' m' d'" "(y, m, d) < (y', m', d')"
  shows "ymd2ord y m d < ymd2ord y' m' d'"
proof -
  from assms(1) have v: "1 \<le> m" "m \<le> 12" "1 \<le> d" "d \<le> days_in_month y m"
    by (simp_all add: valid_date_def)
  from assms(2) have v': "1 \<le> m'" "m' \<le> 12" "1 \<le> d'" "d' \<le> days_in_month y' m'"
    by (simp_all add: valid_date_def)
  have up: "days_before_month y m + d \<le> days_before_month y (m + 1)"
    using days_before_month_Suc [OF v(1), of y] v(4) by simp
  from assms(3) have "y < y' \<or> (y = y' \<and> m < m') \<or> (y = y' \<and> m = m' \<and> d < d')"
    by (auto simp: le_less)
  then consider "y < y'" | "y = y'" "m < m'" | "y = y'" "m = m'" "d < d'"
    by blast
  then show ?thesis
  proof cases
    case 1
    have "days_before_month y (m + 1) \<le> days_before_month y 13"
      using v by (intro days_before_month_mono) auto
    then have "ymd2ord y m d \<le> days_before_year (y + 1)"
      using up by (simp add: ymd2ord_def days_before_year_Suc days_before_month_13)
    also have "\<dots> \<le> days_before_year y'"
      using 1 by (intro days_before_year_mono) simp
    also have "\<dots> < ymd2ord y' m' d'"
      using days_before_month_nonneg [OF v'(1), of y'] v'(3) by (simp add: ymd2ord_def)
    finally show ?thesis .
  next
    case 2
    have "days_before_month y (m + 1) \<le> days_before_month y m'"
      using v 2 by (intro days_before_month_mono) auto
    then show ?thesis using up 2 v'(3) by (simp add: ymd2ord_def)
  next
    case 3
    then show ?thesis by (simp add: ymd2ord_def)
  qed
qed

subsection \<open>Grouping and the trend\<close>

lemma keys_group_add:
  "map fst (group_add gs kv) = (if fst kv \<in> set (map fst gs) then map fst gs else map fst gs @ [fst kv])"
  by (induction gs kv rule: group_add.induct) auto

lemma keys_foldl_group_add:
  "map fst (foldl group_add [] rows) = first_seen (map fst rows)"
proof (induction rows rule: rev_induct)
  case Nil
  show ?case by (simp add: first_seen_def)
next
  case (snoc kv rows)
  have "set (map fst (foldl group_add [] rows)) = set (map fst rows)"
    using snoc by (simp add: set_first_seen)
  then show ?case
    using snoc by (simp add: keys_group_add first_seen_snoc)
qed

lemma group_get_add:
  "group_get (group_add gs kv) k = group_get gs k @ (if fst kv = k then [snd kv] else [])"
  by (induction gs kv rule: group_add.induct) (auto simp: group_get_def)

lemma group_get_foldl:
  "group_get (foldl group_add gs rows) k = group_get gs k @ bucket_values rows k"
  by (induction rows arbitrary: gs) (auto simp: group_get_add bucket_values_def)

lemma group_get_entry:
  "distinct (map fst gs) \<Longrightarrow> g \<in> set gs \<Longrightarrow> group_get gs (fst g) = snd g"
  by (cases g) (simp add: group_get_def)

lemma group_entries:
  assumes "g \<in> set (foldl group_add [] rows)"
  shows "fst g \<in> set (map fst rows) \<and> snd g = bucket_values rows (fst g)"
proof -
  let ?gs = "foldl group_add [] rows"
  have d: "distinct (map fst ?gs)"
    by (simp add: keys_foldl_group_add distinct_first_seen)
  have "fst g \<in> set (map fst ?gs)" using assms by force
  then have k: "fst g \<in> set (map fst rows)"
    by (simp only: keys_foldl_group_add set_first_seen)
  have "snd g = group_get ?gs (fst g)"
    using group_get_entry [OF d assms] by simp
  also have "\<dots> = group_get [] (fst g) @ bucket_values rows (fst g)"
    by (rule group_get_foldl)
  also have "\<dots> = bucket_values rows (fst g)"
    by (simp add: group_get_def)
  finally show ?thesis using k by simp
qed

lemma groupby_mean_keys:
  "distinct (map fst (groupby_mean rows)) \<and> set (map fst (groupby_mean rows)) = set (map fst rows)"
proof -
  let ?gs = "foldl group_add [] rows"
  let ?s = "sort_key (\<lambda>g. bucket_order (fst g)) ?gs"
  have m: "map fst (groupby_mean rows) = map fst ?s"
    by (simp add: groupby_mean_def comp_def)
  have d: "distinct (map fst ?gs)"
    by (simp add: keys_foldl_group_add distinct_first_seen)
  from d have "distinct (map fst ?s)"
    by (simp add: distinct_map)
  moreover have "set (map fst ?s) = set (map fst rows)"
  proof -
    have "set (map fst ?s) = set (map fst ?gs)" by simp
    also have "\<dots> = set (map fst rows)"
      by (simp only: keys_foldl_group_add set_first_seen)
    finally show ?thesis .
  qed
  ultimately show ?thesis by (simp only: m)
qed

lemma groupby_mean_values:
  assumes "kv \<in> set (groupby_mean rows)"
  shows "snd kv = mean (bucket_values rows (fst kv))"
proof -
  from assms obtain g where g: "g \<in> set (foldl group_add [] rows)" and kv: "kv = (fst g, mean (snd g))"
    by (auto simp: groupby_mean_def)
  from group_entries [OF g] kv show ?thesis by simp
qed

lemma groupby_mean_sorted:
  "sorted (map (\<lambda>kv. bucket_order (fst kv)) (groupby_mean rows))"
proof -
  have "map (\<lambda>kv. bucket_order (fst kv)) (groupby_mean rows)
          = map (\<lambda>g. bucket_order (fst g)) (sort_key (\<lambda>g. bucket_order (fst g)) (foldl group_add [] rows))"
    by (simp add: groupby_mean_def comp_def)
  then show ?thesis by (simp only: sorted_sort_key)
qed

lemma distinct_sorted_wrt_neq: "distinct xs \<Longrightarrow> sorted_wrt (\<lambda>a b. a \<noteq> b) xs"
  by (induction xs) auto

lemma valid_datetime_date: "valid_datetime t \<Longrightarrow> valid_date (year t) (month t) (day t)"
  by (simp add: valid_datetime_def valid_date_def)

lemma valid_first_of_month: "valid_datetime t \<Longrightarrow> valid_date (year t) (month t) 1"
  using days_in_month_pos [of "year t" "month t"] by (simp add: valid_datetime_def valid_date_def)

lemma bucket_start_mono:
  assumes "valid_datetime t" "valid_datetime t'"
    and "bucket_of interval t \<noteq> bucket_of interval t'"
    and "bucket_order (bucket_of interval t) \<le> bucket_order (bucket_of interval t')"
  shows "bucket_start (bucket_of interval t) < bucket_start (bucket_of interval t')"
proof -
  consider (daily) "interval = py ''daily''"
    | (weekly) "interval \<noteq> py ''daily''" "interval = py ''weekly''"
    | (monthly) "interval \<noteq> py ''daily''" "interval \<noteq> py ''weekly''"
    by blast
  then show ?thesis
  proof cases
    case daily
    with assms(3,4) have "(year t, month t, day t) < (year t', month t', day t')"
      by (auto simp: bucket_of_def)
    from ymd2ord_mono [OF valid_datetime_date [OF assms(1)] valid_datetime_date [OF assms(2)] this]
    show ?thesis using daily by (simp add: bucket_of_def)
  next
    case weekly
    define w w' where "w = (ymd2ord (year t) (month t) (day t) - 1) div 7"
      and "w' = (ymd2ord (year t') (month t') (day t') - 1) div 7"
    have b: "bucket_of interval t = Week w" "bucket_of interval t' = Week w'"
      using weekly by (simp_all add: bucket_of_def w_def w'_def)
    from assms(3,4) have "w < w'" unfolding b by auto
    then show ?thesis unfolding b by simp
  next
    case monthly
    with assms(3,4) have "(year t, month t, 1::int) < (year t', month t', 1)"
      by (auto simp: bucket_of_def)
    from ymd2ord_mono [OF valid_first_of_month [OF assms(1)] valid_first_of_month [OF assms(2)] this]
    show ?thesis using monthly by (simp add: bucket_of_def)
  qed
qed

lemma mean_single: "mean [p] = p"
  by (simp add: mean_def)

lemma monday_of_ordinal:
  fixes o' :: int
  shows "(7 * w + 1 = o' - (o' + 6) mod 7) = (w = (o' - 1) div 7)"
proof -
  have m: "(o' + 6) mod 7 = (o' - 1) mod 7"
  proof -
    have "o' + 6 = (o' - 1) + 7 * 1" by simp
    then show ?thesis by (simp only: mod_mult_self2)
  qed
  have "o' - 1 = 7 * ((o' - 1) div 7) + (o' - 1) mod 7" by simp
  then have "o' - (o' - 1) mod 7 = 7 * ((o' - 1) div 7) + 1" by linarith
  then show ?thesis unfolding m by auto
qed

lemma bucket_holds_iff: "bucket_holds interval k t = (k = bucket_of interval t)"
proof (cases k)
  case (Day y m d)
  then show ?thesis by (auto simp: bucket_holds_def bucket_of_def)
next
  case (Week w)
  have "bucket_holds interval (Week w) t
      = (interval \<noteq> py ''daily'' \<and> interval = py ''weekly'' \<and> w = (toordinal t - 1) div 7)"
    by (simp add: bucket_holds_def weekday_def monday_of_ordinal)
  then show ?thesis unfolding Week by (auto simp: bucket_of_def toordinal_def)
next
  case (Month y m)
  then show ?thesis by (auto simp: bucket_holds_def bucket_of_def)
qed

lemma bucket_values_rows:
  "bucket_values (trend_rows interval reviews) k = held_polarities interval reviews k"
  by (induction reviews)
    (auto simp: bucket_values_def trend_rows_def held_polarities_def bucket_holds_iff)

lemma bucket_days:
  assumes "valid_datetime t" and "bucket_holds interval k t"
  shows "bucket_start k \<le> toordinal t \<and> toordinal t < bucket_start k + bucket_length k"
proof (cases k)
  case (Day y m d)
  with assms(2) show ?thesis by (simp add: bucket_holds_def toordinal_def)
next
  case (Week w)
  have "0 \<le> weekday t" "weekday t < 7" by (simp_all add: weekday_def)
  with assms(2) Week show ?thesis by (simp add: bucket_holds_def)
next
  case (Month y m)
  from assms(1) have "1 \<le> day t" "day t \<le> days_in_month (year t) (month t)"
    by (simp_all add: valid_datetime_def)
  then show ?thesis
    using assms(2) Month by (simp add: bucket_holds_def toordinal_def ymd2ord_def)
qed

text \<open>
  C6. For a non-empty query result (every row has a polarity and a timestamp, here a date
  that a \<open>datetime\<close> can hold) and any interval, the series that \<open>sentiment_trend\<close> plots
  has one entry, and no more, for each bucket that holds the timestamp of a review: the
  calendar date for the daily series, the week from Monday to Sunday for the weekly
  series, the year and month otherwise. Each entry comes from a review; its value is the
  arithmetic mean of the polarities of the reviews whose timestamps its bucket holds, so
  the polarity itself when there is one such review; the day of each of these reviews is
  one of the days of the bucket, counted from its first day; and the entries are in the
  order of the first days of their buckets.
\<close>

theorem trend_buckets:
  assumes "reviews = sentiment_trend_query db start_date end_date"
    and "reviews \<noteq> []"
    and "\<forall>r\<in>set reviews. valid_datetime (the (review_date r))"
  shows "\<exists>series. sentiment_trend db start_date end_date interval = TrendPlot series
      \<and> distinct (map fst series)
      \<and> (\<forall>r\<in>set reviews. \<exists>kv\<in>set series. bucket_holds interval (fst kv) (the (review_date r)))
      \<and> (\<forall>kv\<in>set series. held_polarities interval reviews (fst kv) \<noteq> []
            \<and> snd kv = mean (held_polarities interval reviews (fst kv)))
      \<and> (\<forall>kv\<in>set series. \<forall>p. held_polarities interval reviews (fst kv) = [p] \<longrightarrow> snd kv = p)
      \<and> (\<forall>kv\<in>set series. \<forall>r\<in>set reviews.
            bucket_holds interval (fst kv) (the (review_date r))
            \<longrightarrow> bucket_start (fst kv) \<le> toordinal (the (review_date r))
              \<and> toordinal (the (review_date r)) < bucket_start (fst kv) + bucket_length (fst kv))
      \<and> sorted_wrt (\<lambda>a b. bucket_start (fst a) < bucket_start (fst b)) series"
proof -
  let ?rows = "trend_rows interval reviews"
  let ?series = "groupby_mean ?rows"
  let ?date = "\<lambda>r. the (review_date r)"
  have res: "sentiment_trend db start_date end_date interval = TrendPlot ?series"
    using assms(1,2) by (simp add: sentiment_trend_def Let_def)
  have keys: "set (map fst ?rows) = (\<lambda>r. bucket_of interval (?date r)) ` set reviews"
    by (simp add: trend_rows_def comp_def)
  have d: "distinct (map fst ?series)"
    and k: "set (map fst ?series) = (\<lambda>r. bucket_of interval (?date r)) ` set reviews"
    using groupby_mean_keys [of ?rows] keys by simp_all
  have every: "\<forall>r\<in>set reviews. \<exists>kv\<in>set ?series. bucket_holds interval (fst kv) (?date r)"
  proof
    fix r assume "r \<in> set reviews"
    then have "bucket_of interval (?date r) \<in> set (map fst ?series)"
      unfolding k by blast
    then obtain kv where "kv \<in> set ?series" "fst kv = bucket_of interval (?date r)"
      by auto
    then show "\<exists>kv\<in>set ?series. bucket_holds interval (fst kv) (?date r)"
      by (auto simp: bucket_holds_iff)
  qed
  have m: "\<forall>kv\<in>set ?series. held_polarities interval reviews (fst kv) \<noteq> []
            \<and> snd kv = mean (held_polarities interval reviews (fst kv))"
  proof
    fix kv assume kv: "kv \<in> set ?series"
    then have "fst kv \<in> set (map fst ?series)" by force
    then obtain r where r: "r \<in> set reviews" "fst kv = bucket_of interval (?date r)"
      unfolding k by blast
    then have "r \<in> set (filter (\<lambda>r. bucket_holds interval (fst kv) (?date r)) reviews)"
      by (simp add: bucket_holds_iff)
    then have "filter (\<lambda>r. bucket_holds interval (fst kv) (?date r)) reviews \<noteq> []"
      by (metis empty_iff empty_set)
    then have ne: "held_polarities interval reviews (fst kv) \<noteq> []"
      by (simp add: held_polarities_def)
    from groupby_mean_values [OF kv]
    have "snd kv = mean (held_polarities interval reviews (fst kv))"
      by (simp add: bucket_values_rows)
    with ne show "held_polarities interval reviews (fst kv) \<noteq> []
            \<and> snd kv = mean (held_polarities interval reviews (fst kv))" by simp
  qed
  have one: "\<forall>kv\<in>set ?series. \<forall>p. held_polarities interval reviews (fst kv) = [p] \<longrightarrow> snd kv = p"
    using m by (simp add: mean_single)
  have days: "\<forall>kv\<in>set ?series. \<forall>r\<in>set reviews.
            bucket_holds interval (fst kv) (?date r)
            \<longrightarrow> bucket_start (fst kv) \<le> toordinal (?date r)
              \<and> toordinal (?date r) < bucket_start (fst kv) + bucket_length (fst kv)"
    using assms(3) bucket_days by blast
  have s1: "sorted_wrt (\<lambda>a b. bucket_order (fst a) \<le> bucket_order (fst b)) ?series"
    using groupby_mean_sorted [of ?rows] by (simp add: sorted_map)
  have s2: "sorted_wrt (\<lambda>a b. fst a \<noteq> fst b) ?series"
    using distinct_sorted_wrt_neq [OF d] by (simp add: sorted_wrt_map)
  have s3: "sorted_wrt (\<lambda>a b. bucket_order (fst a) \<le> bucket_order (fst b) \<and> fst a \<noteq> fst b) ?series"
    by (rule sorted_wrt_conj [OF s1 s2])
  have chrono: "sorted_wrt (\<lambda>a b. bucket_start (fst a) < bucket_start (fst b)) ?series"
  proof (rule sorted_wrt_mono_rel [OF _ s3])
    fix a b
    assume a: "a \<in> set ?series" and b: "b \<in> set ?series"
      and o: "bucket_order (fst a) \<le> bucket_order (fst b) \<and> fst a \<noteq> fst b"
    from a have "fst a \<in> set (map fst ?series)" by force
    with k obtain r where r: "r \<in> set reviews" "fst a = bucket_of interval (?date r)"
      by auto
    from b have "fst b \<in> set (map fst ?series)" by force
    with k obtain r' where r': "r' \<in> set reviews" "fst b = bucket_of interval (?date r')"
      by auto
    from assms(3) r(1) r'(1) have v: "valid_datetime (?date r)" "valid_datetime (?date r')"
      by blast+
    from bucket_start_mono [OF v, of interval] o
    show "bucket_start (fst a) < bucket_start (fst b)" unfolding r(2) r'(2) by simp
  qed
  from res d every m one days chrono show ?thesis by blast
qed

lemmas calendar_simps = toordinal_def weekday_def ymd2ord_def days_before_year_def
  days_before_month_def days_in_month_def is_leap_def

lemma db_trend_query: "sentiment_trend_query db_trend None None = db_trend"
  by (simp add: sentiment_trend_query_def db_trend_def rv_def date_ge_def date_le_def
      del: not_None_eq)

lemma db_trend_valid: "list_all (\<lambda>r. valid_datetime (the (review_date r))) db_trend"
  by (simp add: db_trend_def rv_def valid_datetime_def days_in_month_def is_leap_def)

lemma db_trend_daily:
  "sentiment_trend db_trend None None (py ''daily'')
     = TrendPlot [(Day 2014 1 5, 3 / 5), (Day 2015 1 5, 1 / 2), (Day 2015 1 11, 1 / 2),
         (Day 2015 2 10, 2 / 5)]"
  unfolding sentiment_trend_def db_trend_query Let_def
  by (simp add: db_trend_def rv_def trend_rows_def bucket_of_def groupby_mean_def mean_def py_def)

lemma db_trend_weekly:
  "sentiment_trend db_trend None None (py ''weekly'')
     = TrendPlot [(Week 105033, 3 / 5), (Week 105086, 1 / 2), (Week 105091, 2 / 5)]"
  unfolding sentiment_trend_def db_trend_query Let_def
  by (simp add: db_trend_def rv_def trend_rows_def bucket_of_def groupby_mean_def mean_def py_def
      calendar_simps)

lemma db_trend_monthly:
  "sentiment_trend db_trend None None (py ''monthly'')
     = TrendPlot [(Month 2014 1, 3 / 5), (Month 2015 1, 1 / 2), (Month 2015 2, 2 / 5)]"
  unfolding sentiment_trend_def db_trend_query Let_def
  by (simp add: db_trend_def rv_def trend_rows_def bucket_of_def groupby_mean_def mean_def py_def)

lemma db_trend_held:
  "held_polarities (py ''daily'') db_trend (Day 2015 1 5) = [0.2, 0.8]"
  "held_polarities (py ''weekly'') db_trend (Week 105086) = [0.2, 0.8, 0.5]"
  "held_polarities (py ''monthly'') db_trend (Month 2015 1) = [0.2, 0.8, 0.5]"
  "held_polarities (py ''monthly'') db_trend (Month 2014 1) = [0.6]"
  by (simp_all add: held_polarities_def bucket_holds_def db_trend_def rv_def py_def calendar_simps)

theorem trend_buckets_witness:
  "sentiment_trend_query db_trend None None = db_trend \<and> db_trend \<noteq> []
   \<and> list_all (\<lambda>r. valid_datetime (the (review_date r))) db_trend
   \<and> sentiment_trend db_trend None None (py ''daily'')
        = TrendPlot [(Day 2014 1 5, 3 / 5), (Day 2015 1 5, 1 / 2), (Day 2015 1 11, 1 / 2),
            (Day 2015 2 10, 2 / 5)]
   \<and> sentiment_trend db_trend None None (py ''weekly'')
        = TrendPlot [(Week 105033, 3 / 5), (Week 105086, 1 / 2), (Week 105091, 2 / 5)]
   \<and> sentiment_trend db_trend None None (py ''monthly'')
        = TrendPlot [(Month 2014 1, 3 / 5), (Month 2015 1, 1 / 2), (Month 2015 2, 2 / 5)]
   \<and> held_polarities (py ''daily'') db_trend (Day 2015 1 5) = [0.2, 0.8]
   \<and> held_polarities (py ''weekly'') db_trend (Week 105086) = [0.2, 0.8, 0.5]
   \<and> held_polarities (py ''monthly'') db_trend (Month 2015 1) = [0.2, 0.8, 0.5]
   \<and> held_polarities (py ''monthly'') db_trend (Month 2014 1) = [0.6]
   \<and> sorted_wrt (\<lambda>a b. bucket_start (fst a) < bucket_start (fst b))
        [(Day 2014 1 5, 3 / 5 :: real), (Day 2015 1 5, 1 / 2), (Day 2015 1 11, 1 / 2),
         (Day 2015 2 10, 2 / 5)]
   \<and> sorted_wrt (\<lambda>a b. bucket_start (fst a) < bucket_start (fst b))
        [(Week 105033, 3 / 5 :: real), (Week 105086, 1 / 2), (Week 105091, 2 / 5)]
   \<and> sorted_wrt (\<lambda>a b. bucket_start (fst a) < bucket_start (fst b))
        [(Month 2014 1, 3 / 5 :: real), (Month 2015 1, 1 / 2), (Month 2015 2, 2 / 5)]"
proof -
  have ne: "db_trend \<noteq> []" by (simp add: db_trend_def)
  have v: "\<forall>r\<in>set db_trend. valid_datetime (the (review_date r))"
    using db_trend_valid by (simp add: list_all_iff)
  have s: "sorted_wrt (\<lambda>a b. bucket_start (fst a) < bucket_start (fst b)) series"
    if "sentiment_trend db_trend None None interval = TrendPlot series" for interval series
  proof -
    from trend_buckets [OF db_trend_query [symmetric] ne v, of interval]
    obtain series' where
      "sentiment_trend db_trend None None interval = TrendPlot series'"
      "sorted_wrt (\<lambda>a b. bucket_start (fst a) < bucket_start (fst b)) series'"
      by blast
    with that show ?thesis by simp
  qed
  from db_trend_query ne db_trend_valid db_trend_daily db_trend_weekly db_trend_monthly
    db_trend_held s [OF db_trend_daily] s [OF db_trend_weekly] s [OF db_trend_monthly]
  show ?thesis by blast
qed

subsection \<open>The correlation of rating and length\<close>

lemma query_has_rating:
  "r \<in> set (correlation_query db start_date end_date) \<Longrightarrow> rating r \<noteq> None"
  by (simp add: correlation_query_def)

lemma subset_of_records:
  "(\<forall>r\<in>set reviews. rating r \<noteq> None)
   \<Longrightarrow> subset_of (records_of U reviews) k = lengths_with_rating U reviews k"
  by (induction reviews) (auto simp: subset_of_def records_of_def lengths_with_rating_def)

lemma lengths_in_scale:
  "1 \<le> k \<Longrightarrow> k \<le> 5
   \<Longrightarrow> lengths_with_rating U (filter in_scale reviews) k = lengths_with_rating U reviews k"
  by (induction reviews) (auto simp: lengths_with_rating_def in_scale_def)

lemma upto_1_5: "[1..5] = [1, 2, 3, 4, 5::int]"
  by (simp add: upto_rec1)

lemma table_of_records:
  assumes "\<forall>r\<in>set reviews. rating r \<noteq> None"
  shows "avg_length_per_rating (records_of U reviews)
     = [(1, mean_or_none (lengths_with_rating U (filter in_scale reviews) 1)),
        (2, mean_or_none (lengths_with_rating U (filter in_scale reviews) 2)),
        (3, mean_or_none (lengths_with_rating U (filter in_scale reviews) 3)),
        (4, mean_or_none (lengths_with_rating U (filter in_scale reviews) 4)),
        (5, mean_or_none (lengths_with_rating U (filter in_scale reviews) 5))]"
  unfolding avg_length_per_rating_def upto_1_5
  by (simp add: subset_of_records [OF assms] lengths_in_scale mean_or_none_def)

text \<open>
  C7. For a non-empty query result, the Pearson routine is given the rating and the letter
  count of every review, on the scale or off it, and the table of the answer has exactly
  the keys 1 to 5, each with the arithmetic mean of the letter counts of the reviews of
  that rating, or the absence marker when no review has it: the table is the one of the
  reviews with a rating from 1 to 5 alone.
\<close>

theorem per_rating_table:
  assumes "reviews = correlation_query db start_date end_date" and "reviews \<noteq> []"
  shows "rating_length_correlation U btdtr db start_date end_date
     = (case pearsonr btdtr (map (\<lambda>r. the (rating r)) reviews)
              (map (\<lambda>r. int (count_letters U (review_text r))) reviews) of
          Inl e \<Rightarrow> Inl e
        | Inr (pearson_r, p_value) \<Rightarrow> Inr (CorrelationStats
            [(1, mean_or_none (lengths_with_rating U (filter in_scale reviews) 1)),
             (2, mean_or_none (lengths_with_rating U (filter in_scale reviews) 2)),
             (3, mean_or_none (lengths_with_rating U (filter in_scale reviews) 3)),
             (4, mean_or_none (lengths_with_rating U (filter in_scale reviews) 4)),
             (5, mean_or_none (lengths_with_rating U (filter in_scale reviews) 5))]
            pearson_r p_value))"
proof -
  have r: "\<forall>r\<in>set reviews. rating r \<noteq> None"
    using assms(1) query_has_rating by blast
  have a: "map fst (records_of U reviews) = map (\<lambda>r. the (rating r)) reviews"
    by (simp add: records_of_def comp_def)
  have b: "map (\<lambda>rl. int (snd rl)) (records_of U reviews)
        = map (\<lambda>r. int (count_letters U (review_text r))) reviews"
    by (simp add: records_of_def comp_def)
  have res: "rating_length_correlation U btdtr db start_date end_date
     = (case pearsonr btdtr (map fst (records_of U reviews))
              (map (\<lambda>rl. int (snd rl)) (records_of U reviews)) of
          Inl e \<Rightarrow> Inl e
        | Inr (pearson_r, p_value) \<Rightarrow>
            Inr (CorrelationStats (avg_length_per_rating (records_of U reviews)) pearson_r p_value))"
    using assms(2) unfolding assms(1)
    by (simp add: rating_length_correlation_def Let_def)
  show ?thesis
    unfolding res a b table_of_records [OF r] by (rule refl)
qed

lemma db_outlier_query: "correlation_query db_outlier None None = db_outlier"
  by (simp add: correlation_query_def db_outlier_def rt_def date_ge_def date_le_def py_def)

lemma db_outlier_result:
  "rating_length_correlation latin1 btdtr_11 db_outlier None None
     = Inr (CorrelationStats [(1, Some 3), (2, None), (3, None), (4, None), (5, None)]
         (Float 1) (Float 1))"
  unfolding rating_length_correlation_def db_outlier_query Let_def
  by (simp add: db_outlier_def rt_def records_of_def count_letters_def findall_letter_def
      py_def latin1_simps pearsonr_def all_equal_def avg_length_per_rating_def upto_1_5
      subset_of_def mean_def)

theorem per_rating_table_witness:
  "correlation_query db_outlier None None = db_outlier \<and> db_outlier \<noteq> []
   \<and> map (\<lambda>r. the (rating r)) db_outlier = [1, 9]
   \<and> map (\<lambda>r. int (count_letters latin1 (review_text r))) db_outlier = [3, 5]
   \<and> pearsonr btdtr_11 [1, 9] [3, 5] = Inr (Float 1, Float 1)
   \<and> rating_length_correlation latin1 btdtr_11 db_outlier None None
       = Inr (CorrelationStats [(1, Some 3), (2, None), (3, None), (4, None), (5, None)]
           (Float 1) (Float 1))
   \<and> mean_or_none (lengths_with_rating latin1 (filter in_scale db_outlier) 1) = Some 3"
proof -
  have ne: "db_outlier \<noteq> []" by (simp add: db_outlier_def)
  have a: "map (\<lambda>r. the (rating r)) db_outlier = [1, 9]"
    by (simp add: db_outlier_def rt_def)
  have b: "map (\<lambda>r. int (count_letters latin1 (review_text r))) db_outlier = [3, 5]"
    by (simp add: db_outlier_def rt_def count_letters_def findall_letter_def py_def latin1_simps)
  have p: "pearsonr btdtr_11 [1, 9] [3, 5] = Inr (Float 1, Float 1)"
    by (simp add: pearsonr_def all_equal_def)
  from per_rating_table [OF db_outlier_query [symmetric] ne, of latin1 btdtr_11]
  have "mean_or_none (lengths_with_rating latin1 (filter in_scale db_outlier) 1) = Some 3"
    unfolding a b p db_outlier_result by simp
  with db_outlier_query ne a b p db_outlier_result show ?thesis by blast
qed

lemma sum_list_constant:
  "(\<forall>v\<in>set xs. v = c) \<Longrightarrow> sum_list (map real_of_int xs) = real (length xs) * real_of_int c"
  by (induction xs) (auto simp: algebra_simps)

lemma sum_list_zero:
  "(\<And>v. v \<in> set xs \<Longrightarrow> f v = (0::real)) \<Longrightarrow> sum_list (map f xs) = 0"
  by (induction xs) auto

lemma zero_variance_all_equal:
  assumes "xs \<noteq> []"
  shows "zero_variance xs = all_equal xs"
proof
  let ?m = "mean (map real_of_int xs)"
  assume "zero_variance xs"
  then have "sum_list (map (\<lambda>v. (real_of_int v - ?m)\<^sup>2) xs) = 0"
    by (simp add: zero_variance_def)
  moreover have "\<forall>t\<in>set (map (\<lambda>v. (real_of_int v - ?m)\<^sup>2) xs). 0 \<le> t"
    by auto
  ultimately have "\<forall>t\<in>set (map (\<lambda>v. (real_of_int v - ?m)\<^sup>2) xs). t = 0"
    using sum_list_nonneg_eq_0_iff by blast
  then have e: "\<forall>v\<in>set xs. real_of_int v = ?m" by simp
  have "hd xs \<in> set xs" using assms by simp
  with e have "real_of_int (hd xs) = ?m" by blast
  with e have "\<forall>v\<in>set xs. real_of_int v = real_of_int (hd xs)" by simp
  then show "all_equal xs" by (simp add: all_equal_def list_all_iff)
next
  assume "all_equal xs"
  then have c: "\<forall>v\<in>set xs. v = hd xs" by (simp add: all_equal_def list_all_iff)
  have "0 < length xs" using assms by simp
  then have m: "mean (map real_of_int xs) = real_of_int (hd xs)"
    using sum_list_constant [OF c] by (simp add: mean_def)
  have "sum_list (map (\<lambda>v. (real_of_int v - real_of_int (hd xs))\<^sup>2) xs) = 0"
    by (rule sum_list_zero) (simp add: c)
  then show "zero_variance xs"
    unfolding zero_variance_def m .
qed

lemma pearsonr_degenerate:
  assumes "length x = length y" and "2 \<le> length x" and "all_equal x \<or> all_equal y"
  shows "pearsonr btdtr x y = Inr (NaN, NaN)"
  using assms by (auto simp: pearsonr_def Let_def)

lemma pearsonr_short:
  assumes "length x < 2"
  shows "pearsonr btdtr x y = Inl ValueError"
  using assms by (auto simp: pearsonr_def Let_def)

text \<open>
  C1, as amended. The endpoint has no outcome of its own for a degenerate sample. When the
  sample of the query result is degenerate, the answer is the error dictionary for an
  empty result; the \<open>ValueError\<close> of the Pearson routine for a single review; and
  otherwise, with zero variance in the ratings or in the letter counts, the dictionary of
  numbers with the per-rating table and \<open>nan\<close> for both the coefficient and the p-value.
\<close>

theorem degenerate_outcome:
  assumes "reviews = correlation_query db start_date end_date"
    and "degenerate (records_of U reviews)"
  shows "rating_length_correlation U btdtr db start_date end_date
     = (if reviews = [] then Inr (CorrelationError ''Tidak ada review dalam rentang ini.'')
        else if length reviews < 2 then Inl ValueError
        else Inr (CorrelationStats (avg_length_per_rating (records_of U reviews)) NaN NaN))"
proof -
  let ?rec = "records_of U reviews"
  let ?x = "map fst ?rec"
  let ?y = "map (\<lambda>rl. int (snd rl)) ?rec"
  have len: "length ?x = length reviews" "length ?y = length reviews"
    "length ?rec = length reviews"
    by (simp_all add: records_of_def)
  have res: "reviews \<noteq> [] \<Longrightarrow> rating_length_correlation U btdtr db start_date end_date
     = (case pearsonr btdtr ?x ?y of
          Inl e \<Rightarrow> Inl e
        | Inr (pearson_r, p_value) \<Rightarrow>
            Inr (CorrelationStats (avg_length_per_rating ?rec) pearson_r p_value))"
    unfolding assms(1) by (simp add: rating_length_correlation_def Let_def)
  consider (empty) "reviews = []" | (one) "reviews \<noteq> []" "length reviews < 2"
    | (more) "reviews \<noteq> []" "2 \<le> length reviews"
    by fastforce
  then show ?thesis
  proof cases
    case empty
    then show ?thesis
      unfolding assms(1) by (simp add: rating_length_correlation_def Let_def)
  next
    case one
    have "pearsonr btdtr ?x ?y = Inl ValueError"
      by (rule pearsonr_short) (simp only: len one(2))
    then show ?thesis using one by (simp add: res)
  next
    case more
    have ne: "?x \<noteq> []" "?y \<noteq> []" using more(1) by (simp_all add: records_of_def)
    from assms(2) more(2) have "zero_variance ?x \<or> zero_variance ?y"
      by (simp add: degenerate_def len)
    then have "all_equal ?x \<or> all_equal ?y"
      by (simp only: zero_variance_all_equal [OF ne(1)] zero_variance_all_equal [OF ne(2)])
    then have "pearsonr btdtr ?x ?y = Inr (NaN, NaN)"
      using more(2) by (intro pearsonr_degenerate) (simp_all add: len)
    then show ?thesis using more by (simp add: res)
  qed
qed

lemma db_single_query: "correlation_query db_single None None = db_single"
  by (simp add: correlation_query_def db_single_def rt_def date_ge_def date_le_def py_def)

theorem degenerate_outcome_witness:
  "correlation_query db_single None None = db_single
   \<and> degenerate (records_of latin1 db_single)
   \<and> rating_length_correlation latin1 btdtr_11 db_single None None = Inl ValueError"
proof -
  have d: "degenerate (records_of latin1 db_single)"
    by (simp add: degenerate_def records_of_def db_single_def)
  from degenerate_outcome [OF db_single_query [symmetric] d, of btdtr_11]
  have "rating_length_correlation latin1 btdtr_11 db_single None None = Inl ValueError"
    by (simp add: db_single_def)
  with db_single_query d show ?thesis by blast
qed

lemma db_flat_query: "correlation_query db_flat None None = db_flat"
  by (simp add: correlation_query_def db_flat_def rt_def date_ge_def date_le_def py_def)

lemma db_flat_records:
  "records_of latin1 db_flat = [(1, 5), (2, 5), (3, 5), (4, 5), (5, 5)]"
  by (simp add: db_flat_def rt_def records_of_def count_letters_def findall_letter_def
      py_def latin1_simps)

text \<open>
  C1 as the claim states it fails on the sample of the specification, the ratings 1 to 5
  with five letters each: the sample is degenerate, and the answer is the dictionary of
  numbers with \<open>nan\<close> twice, not an explicit outcome.
\<close>

theorem degenerate_leaks_nan:
  "degenerate (records_of latin1 (correlation_query db_flat None None))
   \<and> rating_length_correlation latin1 btdtr_11 db_flat None None
       = Inr (CorrelationStats [(1, Some 5), (2, Some 5), (3, Some 5), (4, Some 5), (5, Some 5)]
           NaN NaN)
   \<and> \<not> reports_undefined (rating_length_correlation latin1 btdtr_11 db_flat None None)"
proof -
  have d: "degenerate (records_of latin1 (correlation_query db_flat None None))"
    unfolding db_flat_query db_flat_records
    by (simp add: degenerate_def zero_variance_def mean_def)
  have r: "rating_length_correlation latin1 btdtr_11 db_flat None None
       = Inr (CorrelationStats [(1, Some 5), (2, Some 5), (3, Some 5), (4, Some 5), (5, Some 5)]
           NaN NaN)"
    unfolding rating_length_correlation_def db_flat_query Let_def db_flat_records
    by (simp add: db_flat_def pearsonr_def all_equal_def avg_length_per_rating_def upto_1_5
        subset_of_def mean_def)
  have "\<not> reports_undefined (rating_length_correlation latin1 btdtr_11 db_flat None None)"
    unfolding r by (simp add: reports_undefined_def)
  with d r show ?thesis by blast
qed

subsection \<open>The letter class\<close>

text \<open>
  C5. The letter count is not the number of letters on every text: for the two characters
  \<open>m\<close> and superscript two (U+00B2, a digit of category No, not a letter), as in a room
  size in square metres, \<open>count_letters\<close> returns 2, while the text has one letter. The class \<open>[^\W\d_]\<close> removes from the word
  characters only the decimal digits and the underscore, so the other numeric characters
  stay.
\<close>

theorem count_letters_superscript:
  "count_letters latin1 (Some [109, 178]) = 2
   \<and> length (filter (isalpha latin1) [109, 178]) = 1
   \<and> isdigit latin1 178 \<and> \<not> isalpha latin1 178"
  by (simp add: count_letters_def findall_letter_def latin1_simps)

text \<open>
  C8. A token without a letter can stay in the cleaned sequence: the text of the digits
  1 and 0 and a superscript two is one token of three characters, none of them a letter,
  and \<open>extract_clean_words\<close> keeps it, since the superscript is in the class \<open>[^\W\d_]\<close>.
\<close>

theorem numeric_token_kept:
  "extract_clean_words latin1 (Some [49, 48, 178]) = [[49, 48, 178]]
   \<and> \<not> list_ex (isalpha latin1) [49, 48, 178]"
  by (simp add: extract_clean_words_def latin1_simps STOPWORDS_def py_def)

text \<open>
  What \<open>count_letters\<close> counts on every text: the characters of the class \<open>[^\W\d_]\<close>,
  which are the letters, digits and numeric characters other than the decimal digits and
  the underscore; an absent or empty text counts 0.
\<close>

theorem count_letters_class:
  "count_letters U text = (case text of None \<Rightarrow> 0 | Some t \<Rightarrow> length (filter (letter_class U) t))
   \<and> letter_class U c = ((isalpha U c \<or> isdigit U c \<or> isnumeric U c) \<and> \<not> isdecimal U c \<and> c \<noteq> underscore)"
  by (auto simp: count_letters_def findall_letter_def letter_class_def re_w_def re_d_def
      isalnum_def split: option.splits)

text \<open>
  On a text whose numeric characters are all letters or decimal digits, the letter count
  is the number of letters.
\<close>

theorem count_letters_plain:
  assumes "only_letters_and_plain U t"
  shows "count_letters U (Some t) = length (filter (isalpha U) t)"
proof -
  have "filter (letter_class U) t = filter (isalpha U) t"
    using assms unfolding only_letters_and_plain_def list_all_iff
    by (intro filter_cong) (auto simp: letter_class_def re_w_def re_d_def isalnum_def)
  then show ?thesis by (simp add: count_letters_def findall_letter_def)
qed

theorem count_letters_plain_witness:
  "only_letters_and_plain latin1 (py ''Room205!'')
   \<and> count_letters latin1 (Some (py ''Room205!'')) = 4
   \<and> length (filter (isalpha latin1) (py ''Room205!'')) = 4"
proof -
  have a: "only_letters_and_plain latin1 (py ''Room205!'')"
    by (simp add: only_letters_and_plain_def py_def latin1_simps)
  have b: "length (filter (isalpha latin1) (py ''Room205!'')) = 4"
    by (simp add: py_def latin1_simps)
  from count_letters_plain [OF a] a b show ?thesis by simp
qed

text \<open>
  Every token of the cleaned sequence has more than two characters, is no stopword, holds
  a character of the class \<open>[^\W\d_]\<close> and only word characters; the cleaned sequence is
  a subsequence of the tokens of the lowered text, whose characters in turn are the word
  characters of the lowered text in their order.
\<close>

theorem clean_words_kept:
  "list_all (\<lambda>w. 2 < length w \<and> w \<notin> STOPWORDS \<and> list_ex (letter_class U) w \<and> list_all (re_w U) w)
     (extract_clean_words U text)
   \<and> (case text of
         None \<Rightarrow> extract_clean_words U text = []
       | Some t \<Rightarrow> subseq (extract_clean_words U text) (WORD_PATTERN_findall U (lower U t))
                   \<and> concat (WORD_PATTERN_findall U (lower U t)) = filter (re_w U) (lower U t))"
proof -
  have a: "list_all (\<lambda>w. 2 < length w \<and> w \<notin> STOPWORDS \<and> list_ex (letter_class U) w \<and> list_all (re_w U) w)
     (extract_clean_words U text)"
  proof -
    have "\<forall>w\<in>set (extract_clean_words U text).
        2 < length w \<and> w \<notin> STOPWORDS \<and> list_ex (letter_class U) w \<and> list_all (re_w U) w"
    proof
      fix w assume "w \<in> set (extract_clean_words U text)"
      from extract_tokens [OF this]
      show "2 < length w \<and> w \<notin> STOPWORDS \<and> list_ex (letter_class U) w \<and> list_all (re_w U) w"
        by (simp add: keeps_def search_letter_def)
    qed
    then show ?thesis by (simp add: list_all_iff)
  qed
  have b: "subseq (extract_clean_words U (Some t)) (WORD_PATTERN_findall U (lower U t))" for t
    by (simp add: extract_Some)
  show ?thesis using a b by (simp add: concat_findall extract_clean_words_def split: option.splits)
qed

theorem clean_words_kept_witness:
  "extract_clean_words latin1 (Some (py ''The ROOM was Excellent, 205 a1b''))
     = [py ''excellent'', py ''a1b'']
   \<and> WORD_PATTERN_findall latin1 (lower latin1 (py ''The ROOM was Excellent, 205 a1b''))
     = [py ''the'', py ''room'', py ''was'', py ''excellent'', py ''205'', py ''a1b'']
   \<and> subseq [py ''excellent'', py ''a1b'']
        [py ''the'', py ''room'', py ''was'', py ''excellent'', py ''205'', py ''a1b'']"
proof -
  have f: "WORD_PATTERN_findall latin1 (lower latin1 (py ''The ROOM was Excellent, 205 a1b''))
     = [py ''the'', py ''room'', py ''was'', py ''excellent'', py ''205'', py ''a1b'']"
    by (simp add: py_def latin1_simps)
  have e: "extract_clean_words latin1 (Some (py ''The ROOM was Excellent, 205 a1b''))
     = [py ''excellent'', py ''a1b'']"
    unfolding extract_clean_words_def option.case f
    by (simp add: py_def STOPWORDS_def latin1_simps)
  from clean_words_kept [of latin1 "Some (py ''The ROOM was Excellent, 205 a1b'')"]
  have "subseq [py ''excellent'', py ''a1b'']
        [py ''the'', py ''room'', py ''was'', py ''excellent'', py ''205'', py ''a1b'']"
    unfolding e option.case f by simp
  with e f show ?thesis by blast
qed

end
